theory Spec2Isabelle
  imports Complex_Main "HOL-Library.Stream"
begin

section \<open>Span sampler: \<open>contrastive_utils.sample_anchor_positives\<close>\<close>

subsection \<open>Python primitives used by the sampler\<close>

text \<open>
  \<open>str.split()\<close> without arguments splits on runs of whitespace and never yields an
  empty token. The whitespace characters below are the code points up to 255 for which
  Python's \<open>str.isspace\<close> holds.
\<close>

definition py_isspace :: "char \<Rightarrow> bool" where
  "py_isspace c = (of_char c \<in> {9, 10, 11, 12, 13, 28, 29, 30, 31, 32, 133, 160 :: nat})"

fun py_split_aux :: "string \<Rightarrow> string \<Rightarrow> string list" where
  "py_split_aux cur [] = (if cur = [] then [] else [cur])"
| "py_split_aux cur (c # cs) =
     (if py_isspace c
      then (if cur = [] then py_split_aux [] cs else cur # py_split_aux [] cs)
      else py_split_aux (cur @ [c]) cs)"

definition py_split :: "string \<Rightarrow> string list" where
  "py_split text = py_split_aux [] text"

text \<open>\<open>" ".join(xs)\<close>.\<close>

fun py_join :: "string list \<Rightarrow> string" where
  "py_join [] = []"
| "py_join [x] = x"
| "py_join (x # y # ys) = x @ '' '' @ py_join (y # ys)"

text \<open>
  \<open>xs[i:j]\<close>: a negative index counts from the end, every index is clipped to the list,
  and the slice is empty when the clipped start is not below the clipped end. Nothing is
  raised.
\<close>

definition py_slice_index :: "nat \<Rightarrow> int \<Rightarrow> nat" where
  "py_slice_index n i = (if i < 0 then nat (max 0 (i + int n)) else min (nat i) n)"

definition py_slice :: "'a list \<Rightarrow> int \<Rightarrow> int \<Rightarrow> 'a list" where
  "py_slice xs i j =
     (let lo = py_slice_index (length xs) i; hi = py_slice_index (length xs) j
      in take (hi - lo) (drop lo xs))"

text \<open>
  The exceptions the sampler can raise: the three \<open>ValueError\<close>s of the input checks,
  the \<open>ValueError\<close> of \<open>random.randint\<close> on an empty range, the \<open>IndexError\<close> of
  \<open>random.choice\<close> on an empty sequence.
\<close>

datatype error =
    ValueError_too_short int
  | ValueError_min_exceeds_max int int
  | ValueError_max_exceeds_len int int
  | ValueError_empty_range int int
  | IndexError_empty_seq

text \<open>
  What the sampler reads and writes outside its arguments: the successive results of
  \<open>np.random.beta\<close>, the entropy consumed by \<open>randint\<close> and \<open>choice\<close>, the rounding
  of float64 arithmetic, and the messages the logger's \<open>warning_once\<close> has already shown.
  The warning's text is determined by the two numbers it formats, so a message is kept as
  that pair.
\<close>

record world =
  beta_draws :: "real stream"
  int_draws :: "nat stream"
  fround :: "real \<Rightarrow> real"
  warned :: "(int \<times> int) list"

text \<open>
  The assumptions on the environment: a Beta variate lies in \<open>[0, 1]\<close>, and float64
  rounding is monotone and exact on integers.
\<close>

definition world_ok :: "world \<Rightarrow> bool" where
  "world_ok w \<longleftrightarrow>
     (\<forall>b \<in> sset (beta_draws w). 0 \<le> b \<and> b \<le> 1) \<and>
     mono (fround w) \<and>
     (\<forall>k :: int. fround w (real_of_int k) = real_of_int k)"

text \<open>\<open>np.random.beta(a, b)\<close>: the next variate; the shape parameters only select the law.\<close>

definition np_random_beta :: "nat \<Rightarrow> nat \<Rightarrow> world \<Rightarrow> real \<times> world" where
  "np_random_beta a b w = (shd (beta_draws w), w\<lparr>beta_draws := stl (beta_draws w)\<rparr>)"

text \<open>\<open>random.randint(a, b)\<close>: an integer of \<open>[a, b]\<close>, \<open>ValueError\<close> when \<open>b < a\<close>.\<close>

definition randint :: "int \<Rightarrow> int \<Rightarrow> world \<Rightarrow> (error + int) \<times> world" where
  "randint a b w =
     (if b < a then (Inl (ValueError_empty_range a b), w)
      else (Inr (a + int (shd (int_draws w) mod nat (b - a + 1))),
            w\<lparr>int_draws := stl (int_draws w)\<rparr>))"

text \<open>\<open>random.choice(seq)\<close>: an element of \<open>seq\<close>, \<open>IndexError\<close> when it is empty.\<close>

definition choice :: "'a list \<Rightarrow> world \<Rightarrow> (error + 'a) \<times> world" where
  "choice xs w =
     (if xs = [] then (Inl IndexError_empty_seq, w)
      else (Inr (xs ! (shd (int_draws w) mod length xs)),
            w\<lparr>int_draws := stl (int_draws w)\<rparr>))"

text \<open>\<open>logger.warning_once(msg)\<close>: shown only the first time.\<close>

definition warning_once :: "int \<times> int \<Rightarrow> world \<Rightarrow> world" where
  "warning_once m w = (if m \<in> set (warned w) then w else w\<lparr>warned := warned w @ [m]\<rparr>)"

text \<open>\<open>int(x)\<close> of a float truncates towards zero.\<close>

definition py_int :: "real \<Rightarrow> int" where
  "py_int x = (if 0 \<le> x then \<lfloor>x\<rfloor> else \<lceil>x\<rceil>)"

text \<open>\<open>int(beta * (hi - lo) + lo)\<close>, each float operation rounded.\<close>

definition span_length :: "world \<Rightarrow> real \<Rightarrow> int \<Rightarrow> int \<Rightarrow> int" where
  "span_length w beta hi lo =
     py_int (fround w (fround w (beta * real_of_int (hi - lo)) + real_of_int lo))"

subsection \<open>The sampler\<close>

text \<open>
  The bounds handed to \<open>randint\<close> on the default path (lines 111 to 114), and the list
  \<open>valid_starts\<close> of the adjacent path (lines 102 to 106).
\<close>

definition free_bounds :: "int \<Rightarrow> int \<Rightarrow> int \<Rightarrow> int \<Rightarrow> int \<times> int" where
  "free_bounds anchor_start anchor_end num_tokens positive_length =
     (max 0 (anchor_start - positive_length), min anchor_end (num_tokens - positive_length))"

definition valid_starts :: "int \<Rightarrow> int \<Rightarrow> int \<Rightarrow> int \<Rightarrow> int list" where
  "valid_starts anchor_start anchor_end num_tokens positive_length =
     (if anchor_start - positive_length > 0 then [anchor_start - positive_length] else []) @
     (if anchor_end + positive_length \<le> num_tokens then [anchor_end] else [])"

definition max_positive_len :: "int \<Rightarrow> int \<Rightarrow> int \<Rightarrow> int \<Rightarrow> int" where
  "max_positive_len max_span_len anchor_start anchor_end num_tokens =
     min max_span_len (max anchor_start (num_tokens - anchor_end))"

text \<open>
  One pass of the loop body (lines 76 to 117). The result is the token range
  \<open>(positive_start, positive_end)\<close> of the span that the source joins and appends.
\<close>

definition sample_positive ::
  "string option \<Rightarrow> int \<Rightarrow> int \<Rightarrow> int \<Rightarrow> int \<Rightarrow> int \<Rightarrow> world \<Rightarrow> (error + int \<times> int) \<times> world"
where
  "sample_positive sampling_strategy max_span_len min_span_len num_tokens
       anchor_start anchor_end w =
     (let (beta, w1) = np_random_beta 2 4 w;
          positive_length = span_length w1 beta max_span_len min_span_len
      in if sampling_strategy = Some ''subsuming'' then
           (case randint anchor_start (anchor_end - positive_length) w1 of
              (Inl e, w2) \<Rightarrow> (Inl e, w2)
            | (Inr positive_start, w2) \<Rightarrow>
                (Inr (positive_start, positive_start + positive_length), w2))
         else if sampling_strategy = Some ''adjacent'' then
           (let mpl = max_positive_len max_span_len anchor_start anchor_end num_tokens;
                w2 = (if positive_length > mpl
                      then warning_once (positive_length, mpl) w1 else w1);
                (beta', w3) = np_random_beta 2 4 w2;
                positive_length = span_length w3 beta' mpl min_span_len
            in case choice (valid_starts anchor_start anchor_end num_tokens positive_length) w3 of
                 (Inl e, w4) \<Rightarrow> (Inl e, w4)
               | (Inr positive_start, w4) \<Rightarrow>
                   (Inr (positive_start, positive_start + positive_length), w4))
         else
           (case randint (fst (free_bounds anchor_start anchor_end num_tokens positive_length))
                         (snd (free_bounds anchor_start anchor_end num_tokens positive_length))
                         w1 of
              (Inl e, w2) \<Rightarrow> (Inl e, w2)
            | (Inr positive_start, w2) \<Rightarrow>
                (Inr (positive_start, positive_start + positive_length), w2)))"

text \<open>
  \<open>for _ in range(num_spans)\<close>: the first argument counts the passes left, \<open>positives\<close>
  is the list the source appends to. \<open>num_spans\<close> is an \<open>int\<close>, as the docstring has it;
  \<open>range\<close> of a negative number is empty.
\<close>

fun positives_loop ::
  "nat \<Rightarrow> string option \<Rightarrow> int \<Rightarrow> int \<Rightarrow> int \<Rightarrow> int \<Rightarrow> int \<Rightarrow> (int \<times> int) list \<Rightarrow> world
   \<Rightarrow> (error + (int \<times> int) list) \<times> world"
where
  "positives_loop 0 sampling_strategy max_span_len min_span_len num_tokens
       anchor_start anchor_end positives w = (Inr positives, w)"
| "positives_loop (Suc k) sampling_strategy max_span_len min_span_len num_tokens
       anchor_start anchor_end positives w =
     (case sample_positive sampling_strategy max_span_len min_span_len num_tokens
             anchor_start anchor_end w of
        (Inl e, w') \<Rightarrow> (Inl e, w')
      | (Inr p, w') \<Rightarrow>
          positives_loop k sampling_strategy max_span_len min_span_len num_tokens
            anchor_start anchor_end (positives @ [p]) w')"

text \<open>
  Lines 43 to 119 on the token positions alone: the checks, the anchor and the loop. The
  result is the anchor's token range and the positives' token ranges in the order of
  \<open>positives\<close>. The sampled positions depend on the tokens only through their number.
\<close>

definition sample_spans ::
  "int \<Rightarrow> int \<Rightarrow> int \<Rightarrow> int \<Rightarrow> string option \<Rightarrow> world
   \<Rightarrow> (error + (int \<times> int) \<times> (int \<times> int) list) \<times> world"
where
  "sample_spans num_tokens max_span_len min_span_len num_spans sampling_strategy w =
     (if num_tokens < 10 then (Inl (ValueError_too_short num_tokens), w)
      else if min_span_len > max_span_len
        then (Inl (ValueError_min_exceeds_max max_span_len min_span_len), w)
      else if max_span_len > num_tokens
        then (Inl (ValueError_max_exceeds_len num_tokens max_span_len), w)
      else
        (let (beta, w1) = np_random_beta 4 2 w;
             anchor_length = span_length w1 beta max_span_len min_span_len
         in case randint 0 (num_tokens - anchor_length) w1 of
              (Inl e, w2) \<Rightarrow> (Inl e, w2)
            | (Inr anchor_start, w2) \<Rightarrow>
                (let anchor_end = anchor_start + anchor_length
                 in case positives_loop (nat num_spans) sampling_strategy max_span_len
                           min_span_len num_tokens anchor_start anchor_end [] w2 of
                      (Inl e, w3) \<Rightarrow> (Inl e, w3)
                    | (Inr positives, w3) \<Rightarrow>
                        (Inr ((anchor_start, anchor_end), positives), w3))))"

text \<open>\<open>" ".join(tokens[start:end])\<close>.\<close>

definition span_text :: "string list \<Rightarrow> int \<times> int \<Rightarrow> string" where
  "span_text tokens tr = py_join (py_slice tokens (fst tr) (snd tr))"

text \<open>
  The function itself: tokenize (line 42), sample the positions, and return the joined
  text of each range (lines 70 and 117).
\<close>

definition tokenize :: "(string \<Rightarrow> string list) option \<Rightarrow> string \<Rightarrow> string list" where
  "tokenize tokenizer text = (case tokenizer of Some t \<Rightarrow> t text | None \<Rightarrow> py_split text)"

definition sample_anchor_positives ::
  "string \<Rightarrow> int \<Rightarrow> int \<Rightarrow> int \<Rightarrow> string option \<Rightarrow> (string \<Rightarrow> string list) option
   \<Rightarrow> world \<Rightarrow> (error + string \<times> string list) \<times> world"
where
  "sample_anchor_positives text max_span_len min_span_len num_spans sampling_strategy
       tokenizer w =
     (let tokens = tokenize tokenizer text;
          num_tokens = int (length tokens)
      in case sample_spans num_tokens max_span_len min_span_len num_spans sampling_strategy w of
           (Inl e, w') \<Rightarrow> (Inl e, w')
         | (Inr (anchor, positives), w') \<Rightarrow>
             (Inr (span_text tokens anchor, map (span_text tokens) positives), w'))"

subsection \<open>Concrete documents and environments\<close>

text \<open>
  Documents of 9, 10 and 20 one-letter tokens, and environments with exact rounding whose
  Beta variates are dyadic, so that every float operation on them is exact.
\<close>

definition doc9 :: string where
  "doc9 = ''a b c d e f g h i''"

definition doc10 :: string where
  "doc10 = ''a b c d e f g h i j''"

definition doc20 :: string where
  "doc20 = ''a b c d e f g h i j k l m n o p q r s t''"

definition world_short_positive :: world where
  "world_short_positive =
     \<lparr>beta_draws = 3/4 ## sconst (1/4), int_draws = sconst 2, fround = (\<lambda>x. x), warned = []\<rparr>"

definition world_long_positive :: world where
  "world_long_positive =
     \<lparr>beta_draws = 1/2 ## sconst (3/4), int_draws = sconst 2, fround = (\<lambda>x. x), warned = []\<rparr>"

definition world_late_anchor :: world where
  "world_late_anchor =
     \<lparr>beta_draws = sconst (1/2), int_draws = sconst 5, fround = (\<lambda>x. x), warned = []\<rparr>"

definition world_near_one :: world where
  "world_near_one =
     \<lparr>beta_draws = sconst (15/16), int_draws = sconst 0, fround = (\<lambda>x. x), warned = []\<rparr>"

definition world_redraw :: world where
  "world_redraw =
     \<lparr>beta_draws = 1/2 ## 1/4 ## sconst (3/4), int_draws = 7 ## sconst 0, fround = (\<lambda>x. x), warned = []\<rparr>"

definition world_redraw_positive :: world where
  "world_redraw_positive =
     \<lparr>beta_draws = 1/4 ## sconst (3/4), int_draws = sconst 0, fround = (\<lambda>x. x), warned = []\<rparr>"

text \<open>
  A tokenizer a caller may pass: \<open>lambda t: t.split(" ")\<close>. Splitting on the single space
  keeps the empty string between two adjacent spaces as a token.
\<close>

fun py_split_space_aux :: "string \<Rightarrow> string \<Rightarrow> string list" where
  "py_split_space_aux cur [] = [cur]"
| "py_split_space_aux cur (c # cs) =
     (if c = CHR '' '' then cur # py_split_space_aux [] cs
      else py_split_space_aux (cur @ [c]) cs)"

definition py_split_space :: "string \<Rightarrow> string list" where
  "py_split_space text = py_split_space_aux [] text"

text \<open>
  A document with a double space, and two more environments.
\<close>

definition doc_double_space :: string where
  "doc_double_space = ''a  b c d e f g h i''"

definition world_unit :: world where
  "world_unit =
     \<lparr>beta_draws = sconst (1/2), int_draws = sconst 1, fround = (\<lambda>x. x), warned = []\<rparr>"

definition world_mid_anchor :: world where
  "world_mid_anchor =
     \<lparr>beta_draws = sconst (1/2), int_draws = 5 ## sconst 0, fround = (\<lambda>x. x), warned = []\<rparr>"

section \<open>Contrastive text encoder: \<open>ContrastiveTextEncoder\<close>\<close>

text \<open>
  \<open>TextFieldTensors\<close> is a dictionary of dictionaries of tensors; it is kept as an association
  list, and it is falsy exactly when it is empty. Tensors are values of a type \<open>'t\<close>.
\<close>

type_synonym 't text_field_tensors = "(string \<times> (string \<times> 't) list) list"

text \<open>
  The exceptions of the model: a missing dictionary key, the \<open>ValueError\<close> of line 82, and
  the read of \<open>self._tokenizer\<close>, which \<open>__init__\<close> sets only under masked language modeling.
\<close>

datatype model_error = KeyError string | ValueError_no_loss | AttributeError_tokenizer

text \<open>
  The collaborators the class is given. A token embedder carries the flag and the tokenizer
  that lines 71 to 74 read; the text field embedder maps a batch to the masked language
  modeling loss, if any, and the embedded text (line 164); a loss has the two entry points of
  lines 149 and 153.
\<close>

record 'k token_embedder =
  embedder_masked_language_modeling :: bool
  embedder_tokenizer :: 'k

record ('t, 'k) text_field_embedder =
  token_embedders :: "string \<rightharpoonup> 'k token_embedder"
  embed :: "'t text_field_tensors \<Rightarrow> 't option \<times> 't"

record ('t, 'lab, 'idx) metric_learning_loss =
  get_embeddings_and_labels :: "'t \<Rightarrow> 't \<Rightarrow> 't \<times> 'lab"
  compute :: "'t \<Rightarrow> 'lab \<Rightarrow> 'idx option \<Rightarrow> 't"

text \<open>
  The functions imported at lines 9 to 16 and the two \<open>torch\<close> calls of lines 137 and 138,
  taken as parameters. \<open>get_text_field_mask\<close> stands for the mask already cast to float.
\<close>

record ('t, 'k) library =
  mask_tokens :: "'t text_field_tensors \<Rightarrow> 'k \<Rightarrow> 't text_field_tensors"
  get_text_field_mask :: "'t text_field_tensors \<Rightarrow> 't"
  unpack_pack_chunks :: "'t text_field_tensors \<Rightarrow> 't text_field_tensors list"
  all_gather_anchor_positive_pairs :: "'t \<Rightarrow> 't \<Rightarrow> 't \<times> 't"
  torch_mean :: "'t \<Rightarrow> 't"
  torch_stack :: "'t list \<Rightarrow> 't"

text \<open>
  The attributes of the module: the fields set by \<open>__init__\<close> and the \<open>training\<close> flag of
  \<open>torch.nn.Module\<close>.
\<close>

record ('t, 'k, 'lab, 'idx) contrastive_text_encoder =
  self_text_field_embedder :: "('t, 'k) text_field_embedder"
  self_masked_language_modeling :: bool
  self_tokenizer :: "'k option"
  self_seq2vec_encoder :: "'t \<Rightarrow> 't \<Rightarrow> 't"
  self_feedforward :: "('t \<Rightarrow> 't) option"
  self_miner :: "('t \<Rightarrow> 'lab \<Rightarrow> 'idx) option"
  self_loss :: "('t, 'lab, 'idx) metric_learning_loss option"
  training :: bool

text \<open>
  \<open>__init__\<close> (lines 55 to 89). A freshly built module is in training mode. The vocabulary and
  the initializer touch none of the fields above.
\<close>

definition init ::
  "('t, 'k) text_field_embedder \<Rightarrow> ('t \<Rightarrow> 't \<Rightarrow> 't) \<Rightarrow> ('t \<Rightarrow> 't) option \<Rightarrow>
   ('t \<Rightarrow> 'lab \<Rightarrow> 'idx) option \<Rightarrow> ('t, 'lab, 'idx) metric_learning_loss option \<Rightarrow>
   model_error + ('t, 'k, 'lab, 'idx) contrastive_text_encoder"
where
  "init text_field_embedder seq2vec_encoder feedforward miner loss =
     (case token_embedders text_field_embedder ''tokens'' of
        None \<Rightarrow> Inl (KeyError ''tokens'')
      | Some token_embedder \<Rightarrow>
          (let mlm = embedder_masked_language_modeling token_embedder;
               tok = (if mlm then Some (embedder_tokenizer token_embedder) else None)
           in if Option.is_none loss \<and> \<not> mlm then Inl ValueError_no_loss
              else Inr \<lparr>self_text_field_embedder = text_field_embedder,
                        self_masked_language_modeling = mlm,
                        self_tokenizer = tok,
                        self_seq2vec_encoder = seq2vec_encoder,
                        self_feedforward = feedforward,
                        self_miner = miner,
                        self_loss = loss,
                        training = True\<rparr>))"

text \<open>
  \<open>_forward_internal\<close> (lines 160 to 183). The dictionary is passed by reference in the
  source; here the updated dictionary is returned. \<open>store_unless_training\<close> is the guarded
  assignment of lines 169 to 170 and 180 to 181.
\<close>

definition store_unless_training ::
  "bool \<Rightarrow> string \<Rightarrow> 't \<Rightarrow> (string \<rightharpoonup> 't) option \<Rightarrow> (string \<rightharpoonup> 't) option"
where
  "store_unless_training is_training key v output_dict =
     (case output_dict of
        None \<Rightarrow> None
      | Some d \<Rightarrow> if \<not> is_training then Some (d(key \<mapsto> v)) else Some d)"

definition forward_internal ::
  "('t, 'k) library \<Rightarrow> ('t, 'k, 'lab, 'idx) contrastive_text_encoder \<Rightarrow> 't text_field_tensors \<Rightarrow>
   (string \<rightharpoonup> 't) option \<Rightarrow> ('t option \<times> 't) \<times> (string \<rightharpoonup> 't) option"
where
  "forward_internal lib self tokens output_dict =
     (let (masked_lm_loss, embedded_text) = embed (self_text_field_embedder self) tokens;
          mask = get_text_field_mask lib tokens;
          embedded_text = self_seq2vec_encoder self embedded_text mask;
          output_dict = store_unless_training (training self) ''embeddings'' embedded_text output_dict
      in case self_feedforward self of
           None \<Rightarrow> ((masked_lm_loss, embedded_text), output_dict)
         | Some ff \<Rightarrow>
             (let embedded_text = ff embedded_text;
                  output_dict =
                    store_unless_training (training self) ''projections'' embedded_text output_dict
              in ((masked_lm_loss, embedded_text), output_dict)))"

text \<open>
  The loop of lines 131 to 137, the value \<open>d[key] += v\<close>, and the blocks of \<open>forward\<close>:
  masking (lines 120 to 121), the contrastive loss (lines 131 to 153) and the assembly of
  \<open>output_dict["loss"]\<close> (lines 129 to 156).
\<close>

primrec embed_positives ::
  "('t, 'k) library \<Rightarrow> ('t, 'k, 'lab, 'idx) contrastive_text_encoder \<Rightarrow> 't text_field_tensors list \<Rightarrow>
   't list \<Rightarrow> 't list"
where
  "embed_positives lib self [] embedded_positives = embedded_positives"
| "embed_positives lib self (chunks # rest) embedded_positives =
     (let embedded_chunks = snd (fst (forward_internal lib self chunks None))
      in embed_positives lib self rest (embedded_positives @ [torch_mean lib embedded_chunks]))"

definition dict_iadd ::
  "(string \<rightharpoonup> 't :: plus) \<Rightarrow> string \<Rightarrow> 't \<Rightarrow> model_error + (string \<rightharpoonup> 't)"
where
  "dict_iadd d key v =
     (case d key of None \<Rightarrow> Inl (KeyError key) | Some x \<Rightarrow> Inr (d(key \<mapsto> x + v)))"

definition mask_anchors ::
  "('t, 'k) library \<Rightarrow> ('t, 'k, 'lab, 'idx) contrastive_text_encoder \<Rightarrow> 't text_field_tensors \<Rightarrow>
   model_error + 't text_field_tensors"
where
  "mask_anchors lib self anchors =
     (if training self \<and> self_masked_language_modeling self
      then (case self_tokenizer self of
              None \<Rightarrow> Inl AttributeError_tokenizer
            | Some tok \<Rightarrow> Inr (mask_tokens lib anchors tok))
      else Inr anchors)"

definition contrastive_loss ::
  "('t, 'k) library \<Rightarrow> ('t, 'k, 'lab, 'idx) contrastive_text_encoder \<Rightarrow>
   ('t, 'lab, 'idx) metric_learning_loss \<Rightarrow> 't \<Rightarrow> 't text_field_tensors \<Rightarrow> 't"
where
  "contrastive_loss lib self loss embedded_anchors positives =
     (let embedded_positives =
            torch_stack lib (embed_positives lib self (unpack_pack_chunks lib positives) []);
          (embedded_anchors, embedded_positives) =
            all_gather_anchor_positive_pairs lib embedded_anchors embedded_positives;
          (embeddings, labels) =
            get_embeddings_and_labels loss embedded_anchors embedded_positives;
          indices_tuple =
            (case self_miner self of
               Some miner \<Rightarrow> Some (miner embeddings labels)
             | None \<Rightarrow> None)
      in compute loss embeddings labels indices_tuple)"

definition compute_loss ::
  "('t :: {zero, plus}, 'k) library \<Rightarrow> ('t, 'k, 'lab, 'idx) contrastive_text_encoder \<Rightarrow>
   't text_field_tensors \<Rightarrow> 't \<Rightarrow> 't option \<Rightarrow> (string \<rightharpoonup> 't) \<Rightarrow>
   model_error + (string \<rightharpoonup> 't)"
where
  "compute_loss lib self positives embedded_anchors masked_lm_loss output_dict =
     (let output_dict = output_dict(''loss'' \<mapsto> 0)
      in case (case self_loss self of
                 Some loss \<Rightarrow>
                   dict_iadd output_dict ''loss''
                     (contrastive_loss lib self loss embedded_anchors positives)
               | None \<Rightarrow> Inr output_dict) of
           Inl e \<Rightarrow> Inl e
         | Inr output_dict \<Rightarrow>
             (case masked_lm_loss of
                Some l \<Rightarrow> dict_iadd output_dict ''loss'' l
              | None \<Rightarrow> Inr output_dict))"

text \<open>
  \<open>forward\<close> (lines 91 to 158). \<open>self.training and positives\<close> is false for \<open>None\<close> and for
  an empty dictionary. \<open>written\<close> is the dictionary of line 117 after \<open>_forward_internal\<close> has
  stored into it; given a dictionary, \<open>forward_internal\<close> returns one.
\<close>

definition forward ::
  "('t :: {zero, plus}, 'k) library \<Rightarrow> ('t, 'k, 'lab, 'idx) contrastive_text_encoder \<Rightarrow>
   't text_field_tensors \<Rightarrow> 't text_field_tensors option \<Rightarrow> model_error + (string \<rightharpoonup> 't)"
where
  "forward lib self anchors positives =
     (case mask_anchors lib self anchors of
        Inl e \<Rightarrow> Inl e
      | Inr anchors \<Rightarrow>
          (case forward_internal lib self anchors (Some Map.empty) of
             ((masked_lm_loss, embedded_anchors), written) \<Rightarrow>
               (let output_dict = (case written of Some d \<Rightarrow> d | None \<Rightarrow> Map.empty)
                in case positives of
                     Some pos \<Rightarrow>
                       if training self \<and> pos \<noteq> []
                       then compute_loss lib self pos embedded_anchors masked_lm_loss output_dict
                       else Inr output_dict
                   | None \<Rightarrow> Inr output_dict)))"

subsection \<open>A concrete encoder\<close>

text \<open>
  Integer tensors, a one-entry batch, and an encoder with a projection head and a loss, in
  training or evaluation mode.
\<close>

definition embedder0 :: "(int, unit) text_field_embedder" where
  "embedder0 =
     \<lparr>token_embedders = [''tokens'' \<mapsto> \<lparr>embedder_masked_language_modeling = False, embedder_tokenizer = ()\<rparr>],
      embed = (\<lambda>_. (None, 1))\<rparr>"

definition loss0 :: "(int, unit, unit) metric_learning_loss" where
  "loss0 = \<lparr>get_embeddings_and_labels = (\<lambda>a p. (a + p, ())), compute = (\<lambda>e l i. e)\<rparr>"

definition lib0 :: "(int, unit) library" where
  "lib0 =
     \<lparr>mask_tokens = (\<lambda>a k. a), get_text_field_mask = (\<lambda>_. 1), unpack_pack_chunks = (\<lambda>p. [p]),
      all_gather_anchor_positive_pairs = (\<lambda>a p. (a, p)), torch_mean = (\<lambda>x. x),
      torch_stack = sum_list\<rparr>"

definition encoder0 :: "bool \<Rightarrow> (int, unit, unit, unit) contrastive_text_encoder" where
  "encoder0 is_training =
     \<lparr>self_text_field_embedder = embedder0, self_masked_language_modeling = False,
      self_tokenizer = None, self_seq2vec_encoder = (\<lambda>e m. e + m),
      self_feedforward = Some (\<lambda>e. e + 1), self_miner = None, self_loss = Some loss0,
      training = is_training\<rparr>"

definition batch0 :: "int text_field_tensors" where
  "batch0 = [(''tokens'', [(''token_ids'', 7)])]"

section \<open>Properties of the span sampler\<close>

subsection \<open>The primitives and one pass of the loop\<close>

lemma py_int_mono: "x \<le> y \<Longrightarrow> py_int x \<le> py_int y"
proof -
  assume xy: "x \<le> y"
  show ?thesis
  proof (cases "0 \<le> x")
    case True
    with xy show ?thesis by (simp add: py_int_def floor_mono)
  next
    case neg: False
    show ?thesis
    proof (cases "0 \<le> y")
      case True
      from neg have "\<lceil>x\<rceil> \<le> 0" by (simp add: ceiling_le_zero)
      moreover from True have "0 \<le> \<lfloor>y\<rfloor>" by simp
      ultimately have "\<lceil>x\<rceil> \<le> \<lfloor>y\<rfloor>" by (rule order_trans)
      with neg True show ?thesis by (simp add: py_int_def)
    next
      case False
      with neg xy show ?thesis by (simp add: py_int_def ceiling_mono)
    qed
  qed
qed

lemma py_int_of_int: "py_int (real_of_int k) = k"
  by (simp add: py_int_def)

lemma span_length_bounds:
  assumes ok: "world_ok w" and b: "0 \<le> b" "b \<le> 1"
  shows "min lo hi \<le> span_length w b hi lo \<and> span_length w b hi lo \<le> max lo hi"
proof -
  let ?d = "real_of_int (hi - lo)"
  from ok have m: "mono (fround w)" and fx: "\<And>k::int. fround w (real_of_int k) = real_of_int k"
    by (auto simp: world_ok_def)
  have lohi: "min 0 ?d \<le> b * ?d \<and> b * ?d \<le> max 0 ?d"
  proof (cases "0 \<le> ?d")
    case True
    then have "0 \<le> b * ?d" "b * ?d \<le> ?d"
      using b by (auto intro: mult_nonneg_nonneg mult_left_le_one_le)
    with True show ?thesis by auto
  next
    case False
    then have "b * ?d \<le> 0" "1 * ?d \<le> b * ?d"
      using b by (auto intro: mult_nonneg_nonpos mult_right_mono_neg)
    with False show ?thesis by auto
  qed
  then have lo1: "min 0 ?d \<le> b * ?d" and hi1: "b * ?d \<le> max 0 ?d" by simp_all
  have "min 0 ?d = real_of_int (min 0 (hi - lo))" "max 0 ?d = real_of_int (max 0 (hi - lo))" by (auto simp: min_def max_def)
  with lo1 hi1 have "real_of_int (min 0 (hi - lo)) \<le> b * ?d" "b * ?d \<le> real_of_int (max 0 (hi - lo))" by simp_all
  then have "fround w (real_of_int (min 0 (hi - lo))) \<le> fround w (b * ?d)" "fround w (b * ?d) \<le> fround w (real_of_int (max 0 (hi - lo)))"
    using m by (auto dest: monoD)
  then have r1: "real_of_int (min 0 (hi - lo)) \<le> fround w (b * ?d)" "fround w (b * ?d) \<le> real_of_int (max 0 (hi - lo))"
    by (simp_all only: fx)
  have "real_of_int (min lo hi) \<le> fround w (b * ?d) + real_of_int lo" "fround w (b * ?d) + real_of_int lo \<le> real_of_int (max lo hi)"
    using r1 by (auto simp: min_def max_def split: if_splits)
  then have "fround w (real_of_int (min lo hi)) \<le> fround w (fround w (b * ?d) + real_of_int lo)" "fround w (fround w (b * ?d) + real_of_int lo) \<le> fround w (real_of_int (max lo hi))"
    using m by (auto dest: monoD)
  then have "real_of_int (min lo hi) \<le> fround w (fround w (b * ?d) + real_of_int lo)" "fround w (fround w (b * ?d) + real_of_int lo) \<le> real_of_int (max lo hi)"
    by (simp_all only: fx)
  then have "py_int (real_of_int (min lo hi)) \<le> span_length w b hi lo" "span_length w b hi lo \<le> py_int (real_of_int (max lo hi))"
    unfolding span_length_def by (auto intro: py_int_mono)
  then show ?thesis by (simp only: py_int_of_int)
qed

lemma span_length_fround: "fround w' = fround w \<Longrightarrow> span_length w' b hi lo = span_length w b hi lo"
  by (simp add: span_length_def)

lemma np_random_beta_ok:
  assumes "np_random_beta a b w = (x, w')" "world_ok w"
  shows "world_ok w' \<and> 0 \<le> x \<and> x \<le> 1"
proof -
  from assms(1) have x: "x = shd (beta_draws w)" and w': "w' = w\<lparr>beta_draws := stl (beta_draws w)\<rparr>"
    by (auto simp: np_random_beta_def)
  have sub: "sset (stl (beta_draws w)) \<subseteq> sset (beta_draws w)"
    by (auto dest: stl_sset)
  have "x \<in> sset (beta_draws w)" by (simp add: x shd_sset)
  with assms(2) sub show ?thesis
    unfolding world_ok_def w' by auto
qed

lemma randint_ok: "randint a b w = (r, w') \<Longrightarrow> world_ok w \<Longrightarrow> world_ok w'"
  by (auto simp: randint_def world_ok_def split: if_splits)

lemma randint_range: "randint a b w = (Inr x, w') \<Longrightarrow> a \<le> x \<and> x \<le> b"
proof -
  assume h: "randint a b w = (Inr x, w')"
  then have ab: "a \<le> b" and x: "x = a + int (shd (int_draws w) mod nat (b - a + 1))"
    by (auto simp: randint_def split: if_splits)
  from ab have "0 < nat (b - a + 1)" by simp
  then have "shd (int_draws w) mod nat (b - a + 1) < nat (b - a + 1)" by (rule mod_less_divisor)
  then have "int (shd (int_draws w) mod nat (b - a + 1)) < b - a + 1" using ab by linarith
  with x show ?thesis by simp
qed

lemma randint_returns: "a \<le> b \<Longrightarrow> \<exists>x w'. randint a b w = (Inr x, w')"
  by (simp add: randint_def)

lemma choice_ok: "choice xs w = (r, w') \<Longrightarrow> world_ok w \<Longrightarrow> world_ok w'"
  by (auto simp: choice_def world_ok_def split: if_splits)

lemma choice_mem: "choice xs w = (Inr x, w') \<Longrightarrow> x \<in> set xs"
  by (auto simp: choice_def split: if_splits)

lemma warning_once_ok: "world_ok (warning_once m w) = world_ok w"
  by (simp add: warning_once_def world_ok_def)

lemma sample_positive_ok:
  assumes "sample_positive st mx mn n a_s a_e w = (r, w')" "world_ok w"
  shows "world_ok w'"
  using assms unfolding sample_positive_def Let_def
  by (auto split: prod.splits sum.splits if_splits dest!: np_random_beta_ok randint_ok choice_ok simp: warning_once_ok)

lemma sample_positive_subsuming:
  assumes "sample_positive (Some ''subsuming'') mx mn n a_s a_e w = (Inr p, w')"
  shows "a_s \<le> fst p \<and> snd p \<le> a_e"
  using assms unfolding sample_positive_def Let_def
  by (auto split: prod.splits sum.splits dest!: randint_range)

lemma sample_positive_adjacent:
  assumes "sample_positive (Some ''adjacent'') mx mn n a_s a_e w = (Inr p, w')"
  shows "(snd p = a_s \<or> fst p = a_e) \<and> {fst p ..< snd p} \<inter> {a_s ..< a_e} = {}"
  using assms unfolding sample_positive_def Let_def valid_starts_def
  by (auto split: prod.splits sum.splits if_splits dest!: choice_mem)

lemma sample_positive_in_bounds:
  assumes r: "sample_positive st mx mn n a_s a_e w = (Inr p, w')"
    and ok: "world_ok w" and v: "0 < mn" "mn \<le> mx" "mx \<le> n"
    and a: "0 \<le> a_s" "a_s + mn \<le> a_e" "a_e \<le> n"
  shows "0 \<le> fst p \<and> fst p \<le> snd p \<and> snd p \<le> n \<and> (st \<noteq> Some ''adjacent'' \<longrightarrow> fst p < snd p)"
proof -
  obtain b w1 where b: "np_random_beta 2 4 w = (b, w1)" by (cases "np_random_beta 2 4 w")
  from np_random_beta_ok[OF b ok] have ok1: "world_ok w1" and b01: "0 \<le> b" "b \<le> 1" by auto
  let ?L = "span_length w1 b mx mn"
  from span_length_bounds[OF ok1 b01, of mn mx] v have L: "mn \<le> ?L" "?L \<le> mx" by auto
  show ?thesis
  proof (cases "st = Some ''subsuming''")
    case True
    with r b obtain s where "randint a_s (a_e - ?L) w1 = (Inr s, w')" "p = (s, s + ?L)"
      unfolding sample_positive_def Let_def by (auto split: prod.splits sum.splits)
    with randint_range[of a_s "a_e - ?L" w1 s w'] L v a True show ?thesis by auto
  next
    case ns: False
    show ?thesis
    proof (cases "st = Some ''adjacent''")
      case True
      let ?mpl = "max_positive_len mx a_s a_e n"
      let ?w2 = "if ?L > ?mpl then warning_once (?L, ?mpl) w1 else w1"
      have ok2: "world_ok ?w2" using ok1 by (simp add: warning_once_ok)
      obtain b' w3 where b': "np_random_beta 2 4 ?w2 = (b', w3)" by (cases "np_random_beta 2 4 ?w2")
      from np_random_beta_ok[OF b' ok2] have ok3: "world_ok w3" and b'01: "0 \<le> b'" "b' \<le> 1" by auto
      let ?L' = "span_length w3 b' ?mpl mn"
      have "0 \<le> ?mpl" using v a by (simp add: max_positive_len_def)
      with span_length_bounds[OF ok3 b'01, of mn ?mpl] v have L': "0 \<le> ?L'" by auto
      from r b b' True obtain s where "choice (valid_starts a_s a_e n ?L') w3 = (Inr s, w')" "p = (s, s + ?L')"
        unfolding sample_positive_def Let_def by (auto split: prod.splits sum.splits)
      with choice_mem[of "valid_starts a_s a_e n ?L'" w3 s w'] L' a v True show ?thesis
        by (auto simp: valid_starts_def split: if_splits)
    next
      case False
      with ns r b obtain s where "randint (fst (free_bounds a_s a_e n ?L)) (snd (free_bounds a_s a_e n ?L)) w1 = (Inr s, w')" "p = (s, s + ?L)"
        unfolding sample_positive_def Let_def by (auto split: prod.splits sum.splits)
      with randint_range[of "fst (free_bounds a_s a_e n ?L)" "snd (free_bounds a_s a_e n ?L)" w1 s w'] L v a False show ?thesis
        by (auto simp: free_bounds_def)
    qed
  qed
qed

lemma free_bounds_nonempty:
  assumes "0 \<le> a_s" "a_s \<le> a_e" "a_e \<le> n" "0 \<le> L" "L \<le> n"
  shows "fst (free_bounds a_s a_e n L) \<le> snd (free_bounds a_s a_e n L)"
  using assms by (simp add: free_bounds_def)

lemma sample_positive_free_returns:
  assumes st: "st \<noteq> Some ''subsuming''" "st \<noteq> Some ''adjacent''"
    and ok: "world_ok w" and v: "0 < mn" "mn \<le> mx" "mx \<le> n"
    and a: "0 \<le> a_s" "a_s + mn \<le> a_e" "a_e \<le> n"
  shows "\<exists>p w'. sample_positive st mx mn n a_s a_e w = (Inr p, w')"
proof -
  obtain b w1 where b: "np_random_beta 2 4 w = (b, w1)" by (cases "np_random_beta 2 4 w")
  from np_random_beta_ok[OF b ok] have ok1: "world_ok w1" and b01: "0 \<le> b" "b \<le> 1" by auto
  let ?L = "span_length w1 b mx mn"
  from span_length_bounds[OF ok1 b01, of mn mx] v have L: "mn \<le> ?L" "?L \<le> mx" by auto
  have "fst (free_bounds a_s a_e n ?L) \<le> snd (free_bounds a_s a_e n ?L)"
    using L v a by (intro free_bounds_nonempty) auto
  from randint_returns[OF this, of w1] obtain s w' where
    "randint (fst (free_bounds a_s a_e n ?L)) (snd (free_bounds a_s a_e n ?L)) w1 = (Inr s, w')" by blast
  with st b show ?thesis
    unfolding sample_positive_def Let_def by simp
qed

subsection \<open>The loop\<close>

lemma positives_loop_invariant:
  assumes step: "\<And>w p w'. Q w \<Longrightarrow> sample_positive st mx mn n a_s a_e w = (Inr p, w') \<Longrightarrow> P p \<and> Q w'"
    and q: "Q w" and r: "positives_loop k st mx mn n a_s a_e acc w = (Inr ps, w')"
  shows "\<exists>new. ps = acc @ new \<and> length new = k \<and> (\<forall>p \<in> set new. P p) \<and> Q w'"
  using q r
proof (induction k arbitrary: acc w)
  case 0
  then show ?case by simp
next
  case (Suc k)
  from Suc.prems(2) obtain p w1 where p: "sample_positive st mx mn n a_s a_e w = (Inr p, w1)"
    and rest: "positives_loop k st mx mn n a_s a_e (acc @ [p]) w1 = (Inr ps, w')"
    by (auto split: prod.splits sum.splits)
  from step[OF Suc.prems(1) p] have Pp: "P p" and q1: "Q w1" by auto
  from Suc.IH[OF q1 rest] obtain new where "ps = (acc @ [p]) @ new" "length new = k" "\<forall>p \<in> set new. P p" "Q w'"
    by blast
  with Pp show ?case by (intro exI[of _ "p # new"]) auto
qed

lemma positives_loop_returns:
  assumes step: "\<And>w. Q w \<Longrightarrow> \<exists>p w'. sample_positive st mx mn n a_s a_e w = (Inr p, w') \<and> Q w'"
    and q: "Q w"
  shows "\<exists>ps w'. positives_loop k st mx mn n a_s a_e acc w = (Inr ps, w')"
  using q
proof (induction k arbitrary: acc w)
  case 0
  then show ?case by simp
next
  case (Suc k)
  from step[OF Suc.prems] obtain p w1 where p: "sample_positive st mx mn n a_s a_e w = (Inr p, w1)" and q1: "Q w1"
    by blast
  from Suc.IH[OF q1, of "acc @ [p]"] p show ?case by simp
qed

lemma positives_loop_prefix:
  assumes "positives_loop k st mx mn n a_s a_e acc w = (Inr ps, w')" "j \<le> k"
  shows "\<exists>w''. positives_loop j st mx mn n a_s a_e acc w = (Inr (take (length acc + j) ps), w'')"
  using assms
proof (induction j arbitrary: k acc w)
  case 0
  from positives_loop_invariant[of "\<lambda>_. True" st mx mn n a_s a_e "\<lambda>_. True" w k acc ps w'] 0(1)
  obtain new where "ps = acc @ new" by auto
  then show ?case by simp
next
  case (Suc j)
  then obtain k' where k: "k = Suc k'" "j \<le> k'" by (cases k) auto
  with Suc.prems(1) obtain p w1 where p: "sample_positive st mx mn n a_s a_e w = (Inr p, w1)"
    and rest: "positives_loop k' st mx mn n a_s a_e (acc @ [p]) w1 = (Inr ps, w')"
    by (auto split: prod.splits sum.splits)
  from Suc.IH[OF rest k(2)] p show ?case by simp
qed

subsection \<open>The whole call\<close>

lemma sample_spans_returns:
  assumes "sample_spans n mx mn k st w = (Inr (a, ps), w')"
  shows "10 \<le> n \<and> mn \<le> mx \<and> mx \<le> n \<and>
         (\<exists>b w1 w2. np_random_beta 4 2 w = (b, w1) \<and>
            randint 0 (n - span_length w1 b mx mn) w1 = (Inr (fst a), w2) \<and>
            snd a = fst a + span_length w1 b mx mn \<and>
            positives_loop (nat k) st mx mn n (fst a) (snd a) [] w2 = (Inr ps, w'))"
  using assms unfolding sample_spans_def Let_def
  by (auto split: if_splits prod.splits sum.splits)

lemma sample_spans_anchor:
  assumes r: "sample_spans n mx mn k st w = (Inr (a, ps), w')" and ok: "world_ok w" and mn: "0 < mn"
  shows "0 \<le> fst a \<and> fst a + mn \<le> snd a \<and> snd a \<le> n \<and> snd a - fst a \<le> mx \<and>
         (\<exists>w2. world_ok w2 \<and> positives_loop (nat k) st mx mn n (fst a) (snd a) [] w2 = (Inr ps, w'))"
proof -
  from sample_spans_returns[OF r] obtain b w1 w2 where v: "mn \<le> mx" "mx \<le> n"
    and b: "np_random_beta 4 2 w = (b, w1)"
    and s: "randint 0 (n - span_length w1 b mx mn) w1 = (Inr (fst a), w2)"
    and e: "snd a = fst a + span_length w1 b mx mn"
    and l: "positives_loop (nat k) st mx mn n (fst a) (snd a) [] w2 = (Inr ps, w')"
    by blast
  from np_random_beta_ok[OF b ok] have ok1: "world_ok w1" and b01: "0 \<le> b" "b \<le> 1" by auto
  from span_length_bounds[OF ok1 b01, of mn mx] v have L: "mn \<le> span_length w1 b mx mn" "span_length w1 b mx mn \<le> mx" by auto
  from randint_ok[OF s ok1] have ok2: "world_ok w2" .
  from randint_range[OF s] L e v ok2 l show ?thesis by auto
qed

lemma sample_spans_free_returns:
  assumes ok: "world_ok w" and v: "10 \<le> n" "0 < mn" "mn \<le> mx" "mx \<le> n"
    and st: "st \<noteq> Some ''subsuming''" "st \<noteq> Some ''adjacent''"
  shows "\<exists>a ps w'. sample_spans n mx mn k st w = (Inr (a, ps), w')"
proof -
  obtain b w1 where b: "np_random_beta 4 2 w = (b, w1)" by (cases "np_random_beta 4 2 w")
  from np_random_beta_ok[OF b ok] have ok1: "world_ok w1" and b01: "0 \<le> b" "b \<le> 1" by auto
  let ?L = "span_length w1 b mx mn"
  from span_length_bounds[OF ok1 b01, of mn mx] v have L: "mn \<le> ?L" "?L \<le> mx" by auto
  then have "0 \<le> n - ?L" using v by simp
  from randint_returns[OF this, of w1] obtain a_s w2 where s: "randint 0 (n - ?L) w1 = (Inr a_s, w2)" by blast
  from randint_ok[OF s ok1] have ok2: "world_ok w2" .
  from randint_range[OF s] L have a: "0 \<le> a_s" "a_s + mn \<le> a_s + ?L" "a_s + ?L \<le> n" by auto
  have "\<exists>ps w'. positives_loop (nat k) st mx mn n a_s (a_s + ?L) [] w2 = (Inr ps, w')"
  proof (rule positives_loop_returns[where Q = world_ok, OF _ ok2])
    fix w assume w: "world_ok w"
    from sample_positive_free_returns[OF st w v(2-4) a] obtain p w' where
      p: "sample_positive st mx mn n a_s (a_s + ?L) w = (Inr p, w')" by blast
    with sample_positive_ok[OF p w]
    show "\<exists>p w'. sample_positive st mx mn n a_s (a_s + ?L) w = (Inr p, w') \<and> world_ok w'" by blast
  qed
  then obtain ps w' where "positives_loop (nat k) st mx mn n a_s (a_s + ?L) [] w2 = (Inr ps, w')" by blast
  with b s v show ?thesis
    unfolding sample_spans_def Let_def by simp
qed

lemma sample_spans_positives:
  assumes r: "sample_spans n mx mn k st w = (Inr (a, ps), w')" and ok: "world_ok w" and mn: "0 < mn"
  shows "length ps = nat k \<and>
         (\<forall>p \<in> set ps. 0 \<le> fst p \<and> fst p \<le> snd p \<and> snd p \<le> n \<and> (st \<noteq> Some ''adjacent'' \<longrightarrow> fst p < snd p))"
proof -
  from sample_spans_returns[OF r] have v: "mn \<le> mx" "mx \<le> n" by auto
  from sample_spans_anchor[OF r ok mn] obtain w2 where a: "0 \<le> fst a" "fst a + mn \<le> snd a" "snd a \<le> n"
    and ok2: "world_ok w2" and l: "positives_loop (nat k) st mx mn n (fst a) (snd a) [] w2 = (Inr ps, w')"
    by blast
  have "\<exists>new. ps = [] @ new \<and> length new = nat k \<and>
          (\<forall>p \<in> set new. 0 \<le> fst p \<and> fst p \<le> snd p \<and> snd p \<le> n \<and> (st \<noteq> Some ''adjacent'' \<longrightarrow> fst p < snd p)) \<and> world_ok w'"
  proof (rule positives_loop_invariant[where Q = world_ok, OF _ ok2 l])
    fix w p w' assume w: "world_ok w" and p: "sample_positive st mx mn n (fst a) (snd a) w = (Inr p, w')"
    from sample_positive_in_bounds[OF p w mn v a] sample_positive_ok[OF p w]
    show "(0 \<le> fst p \<and> fst p \<le> snd p \<and> snd p \<le> n \<and> (st \<noteq> Some ''adjacent'' \<longrightarrow> fst p < snd p)) \<and> world_ok w'"
      by simp
  qed
  then show ?thesis by auto
qed

lemma sample_spans_prefix:
  assumes r: "sample_spans n mx mn k st w = (Inr (a, ps), w')" and j: "j \<le> nat k"
  shows "\<exists>w''. sample_spans n mx mn (int j) st w = (Inr (a, take j ps), w'')"
proof -
  from sample_spans_returns[OF r] obtain b w1 w2 where v: "10 \<le> n" "mn \<le> mx" "mx \<le> n"
    and b: "np_random_beta 4 2 w = (b, w1)"
    and s: "randint 0 (n - span_length w1 b mx mn) w1 = (Inr (fst a), w2)"
    and e: "snd a = fst a + span_length w1 b mx mn"
    and l: "positives_loop (nat k) st mx mn n (fst a) (snd a) [] w2 = (Inr ps, w')"
    by blast
  from positives_loop_prefix[OF l j] obtain w'' where
    "positives_loop j st mx mn n (fst a) (snd a) [] w2 = (Inr (take j ps), w'')" by auto
  with v b s e show ?thesis
    unfolding sample_spans_def Let_def by (cases a) auto
qed

lemma sample_anchor_positives_returns:
  assumes "fst (sample_anchor_positives text mx mn k st tokenizer w) = Inr (anchor, positives)"
  shows "\<exists>a ps w'. sample_spans (int (length (tokenize tokenizer text))) mx mn k st w = (Inr (a, ps), w') \<and>
           anchor = span_text (tokenize tokenizer text) a \<and>
           positives = map (span_text (tokenize tokenizer text)) ps"
  using assms unfolding sample_anchor_positives_def Let_def
  by (auto split: prod.splits sum.splits)

lemma sample_anchor_positives_eq:
  assumes "sample_spans (int (length (tokenize tokenizer text))) mx mn k st w = (Inr (a, ps), w')"
  shows "sample_anchor_positives text mx mn k st tokenizer w =
           (Inr (span_text (tokenize tokenizer text) a, map (span_text (tokenize tokenizer text)) ps), w')"
  using assms unfolding sample_anchor_positives_def Let_def by simp

subsection \<open>Slices, tokens and joins\<close>

lemma py_slice_in_bounds:
  assumes "0 \<le> s" "s \<le> e" "e \<le> int (length xs)"
  shows "py_slice xs s e = take (nat (e - s)) (drop (nat s) xs) \<and> length (py_slice xs s e) = nat (e - s)"
proof -
  from assms have "py_slice_index (length xs) s = nat s" "py_slice_index (length xs) e = nat e"
    by (auto simp: py_slice_index_def)
  moreover from assms have "nat e - nat s = nat (e - s)" by simp
  ultimately show ?thesis using assms by (auto simp: py_slice_def Let_def)
qed

lemma py_slice_whole: "py_slice xs 0 (int (length xs)) = xs"
  by (simp add: py_slice_def py_slice_index_def)

lemma py_split_aux_nonempty: "t \<in> set (py_split_aux cur cs) \<Longrightarrow> t \<noteq> []"
  by (induction cur cs rule: py_split_aux.induct) (auto split: if_splits)

lemma py_split_nonempty: "t \<in> set (py_split text) \<Longrightarrow> t \<noteq> []"
  unfolding py_split_def by (rule py_split_aux_nonempty)

subsection \<open>Empty ranges and empty strings\<close>

lemma sample_positive_adjacent_nonempty:
  assumes r: "sample_positive (Some ''adjacent'') mx mn n a_s a_e w = (Inr p, w')"
    and ok: "world_ok w" and v: "0 < mn" "mn \<le> mx" "mx \<le> n"
    and a: "0 \<le> a_s" "a_s + mn \<le> a_e" "a_e \<le> n"
  shows "fst p < snd p \<longleftrightarrow> \<not> (a_s = 0 \<and> a_e = n)"
proof -
  obtain b w1 where b: "np_random_beta 2 4 w = (b, w1)" by (cases "np_random_beta 2 4 w")
  from np_random_beta_ok[OF b ok] have ok1: "world_ok w1" by auto
  let ?L = "span_length w1 b mx mn"
  let ?mpl = "max_positive_len mx a_s a_e n"
  let ?w2 = "if ?L > ?mpl then warning_once (?L, ?mpl) w1 else w1"
  have ok2: "world_ok ?w2" using ok1 by (simp add: warning_once_ok)
  obtain b' w3 where b': "np_random_beta 2 4 ?w2 = (b', w3)" by (cases "np_random_beta 2 4 ?w2")
  from np_random_beta_ok[OF b' ok2] have ok3: "world_ok w3" and b'01: "0 \<le> b'" "b' \<le> 1" by auto
  let ?L' = "span_length w3 b' ?mpl mn"
  from span_length_bounds[OF ok3 b'01, of mn ?mpl]
  have L': "min mn ?mpl \<le> ?L'" by simp
  from r b b' obtain s where c: "choice (valid_starts a_s a_e n ?L') w3 = (Inr s, w')"
    and p: "p = (s, s + ?L')"
    unfolding sample_positive_def Let_def by (auto split: prod.splits sum.splits)
  from choice_mem[OF c] have s: "s \<in> set (valid_starts a_s a_e n ?L')" .
  show ?thesis
  proof (cases "a_s = 0 \<and> a_e = n")
    case True
    then have "?mpl = 0" using v by (simp add: max_positive_len_def)
    with L' v have "0 \<le> ?L'" by simp
    with s True have "?L' = 0" by (auto simp: valid_starts_def split: if_splits)
    with p True show ?thesis by simp
  next
    case False
    with a v have "1 \<le> ?mpl" by (auto simp: max_positive_len_def)
    with L' v have "1 \<le> ?L'" by simp
    with p False show ?thesis by simp
  qed
qed

lemma sample_spans_positives_nonempty:
  assumes r: "sample_spans n mx mn k st w = (Inr (a, ps), w')" and ok: "world_ok w" and mn: "0 < mn"
  shows "\<forall>p \<in> set ps. fst p < snd p \<longleftrightarrow> \<not> (st = Some ''adjacent'' \<and> a = (0, n))"
proof (cases "st = Some ''adjacent''")
  case False
  with sample_spans_positives[OF r ok mn] show ?thesis by auto
next
  case True
  from sample_spans_returns[OF r] have v: "mn \<le> mx" "mx \<le> n" by auto
  from sample_spans_anchor[OF r ok mn] obtain w2 where a: "0 \<le> fst a" "fst a + mn \<le> snd a" "snd a \<le> n"
    and ok2: "world_ok w2" and l: "positives_loop (nat k) st mx mn n (fst a) (snd a) [] w2 = (Inr ps, w')"
    by blast
  have "\<exists>new. ps = [] @ new \<and> length new = nat k \<and>
          (\<forall>p \<in> set new. fst p < snd p \<longleftrightarrow> \<not> (fst a = 0 \<and> snd a = n)) \<and> world_ok w'"
  proof (rule positives_loop_invariant[where Q = world_ok, OF _ ok2 l])
    fix w p w' assume w: "world_ok w" and p: "sample_positive st mx mn n (fst a) (snd a) w = (Inr p, w')"
    from sample_positive_adjacent_nonempty[OF p[unfolded True] w mn v a] sample_positive_ok[OF p w]
    show "(fst p < snd p \<longleftrightarrow> \<not> (fst a = 0 \<and> snd a = n)) \<and> world_ok w'" by simp
  qed
  then have "\<forall>p \<in> set ps. fst p < snd p \<longleftrightarrow> \<not> (fst a = 0 \<and> snd a = n)" by auto
  moreover have "a = (0, n) \<longleftrightarrow> fst a = 0 \<and> snd a = n" by (cases a) auto
  ultimately show ?thesis using True by simp
qed

lemma py_join_empty_iff: "py_join xs = [] \<longleftrightarrow> xs = [] \<or> xs = [[]]"
  by (induction xs rule: py_join.induct) auto

lemma span_text_empty_iff:
  assumes "0 \<le> fst p" "fst p \<le> snd p" "snd p \<le> int (length tokens)"
  shows "span_text tokens p = [] \<longleftrightarrow>
           fst p = snd p \<or> (snd p = fst p + 1 \<and> tokens ! nat (fst p) = [])"
proof -
  let ?xs = "py_slice tokens (fst p) (snd p)"
  from py_slice_in_bounds[OF assms]
  have eq: "?xs = take (nat (snd p - fst p)) (drop (nat (fst p)) tokens)"
    and len: "length ?xs = nat (snd p - fst p)" by auto
  have e: "?xs = [] \<longleftrightarrow> fst p = snd p" using len assms by auto
  have o: "?xs = [[]] \<longleftrightarrow> snd p = fst p + 1 \<and> tokens ! nat (fst p) = []"
  proof
    assume x: "?xs = [[]]"
    with len have l: "snd p = fst p + 1" by auto
    with assms have "nat (fst p) < length tokens" by auto
    then have "?xs ! 0 = tokens ! nat (fst p)" unfolding eq using l by simp
    with x l show "snd p = fst p + 1 \<and> tokens ! nat (fst p) = []" by simp
  next
    assume h: "snd p = fst p + 1 \<and> tokens ! nat (fst p) = []"
    with assms have lt: "nat (fst p) < length tokens" by auto
    from h len have l1: "length ?xs = 1" by simp
    from lt h have "?xs ! 0 = []" unfolding eq by simp
    with l1 show "?xs = [[]]" by (cases ?xs) auto
  qed
  show ?thesis unfolding span_text_def py_join_empty_iff e o ..
qed

lemma subsuming_pass_returns_iff:
  "(\<exists>p w'. sample_positive (Some ''subsuming'') mx mn n a_s a_e w = (Inr p, w')) \<longleftrightarrow>
     span_length w (shd (beta_draws w)) mx mn \<le> a_e - a_s"
  unfolding sample_positive_def np_random_beta_def randint_def span_length_def Let_def
  by (auto split: prod.splits sum.splits if_splits)

subsection \<open>Evaluation on the concrete inputs\<close>

lemmas eval_defs =
  sample_anchor_positives_def tokenize_def py_split_def py_isspace_def
  sample_spans_def np_random_beta_def span_length_def py_int_def randint_def choice_def
  sample_positive_def span_text_def py_slice_def py_slice_index_def free_bounds_def
  valid_starts_def max_positive_len_def warning_once_def doc10_def doc20_def

lemma world_ok_short: "world_ok world_short_positive"
  by (simp add: world_ok_def world_short_positive_def mono_def)

lemma world_ok_long: "world_ok world_long_positive"
  by (simp add: world_ok_def world_long_positive_def mono_def)

lemma world_ok_near_one: "world_ok world_near_one"
  by (simp add: world_ok_def world_near_one_def mono_def)

lemma world_ok_unit: "world_ok world_unit"
  by (simp add: world_ok_def world_unit_def mono_def)

subsection \<open>Results of a call\<close>

text \<open>
  C1, as amended. Let the document have at least 10 tokens, \<open>0 < min_span_len \<le> max_span_len
  \<le> num_tokens\<close> and \<open>num_spans \<ge> 1\<close>, in an environment whose Beta variates lie in \<open>[0, 1]\<close>.
  Under the default strategy the call returns. Under the subsuming strategy a pass of the loop
  returns exactly when the length drawn for the positive does not exceed the length of the
  anchor. Under every strategy, when the call returns, it returns the anchor and exactly
  \<open>num_spans\<close> positives; each positive is the join of the tokens at the positions
  \<open>[start, end)\<close> of a range with \<open>0 \<le> start \<le> end \<le> num_tokens\<close>; that range is empty exactly
  when the strategy is adjacent and the anchor is the whole document; the string is empty
  exactly when the range is empty or is a single token that is the empty string, which the
  default tokenizer never yields; and the positives come in the order they were sampled: the
  same call with \<open>j \<le> num_spans\<close> spans returns the same anchor and the first \<open>j\<close> positives.
  Nothing is said on whether the call returns under the adjacent strategy.
\<close>

theorem sample_anchor_positives_result:
  assumes ok: "world_ok w" and tokens: "tokens = tokenize tokenizer text" and n: "n = int (length tokens)"
    and v: "10 \<le> n" "0 < min_span_len" "min_span_len \<le> max_span_len" "max_span_len \<le> n"
    and k: "1 \<le> num_spans"
  shows "(sampling_strategy \<noteq> Some ''subsuming'' \<and> sampling_strategy \<noteq> Some ''adjacent'' \<longrightarrow>
            (\<exists>r w'. sample_anchor_positives text max_span_len min_span_len num_spans
                       sampling_strategy tokenizer w = (Inr r, w'))) \<and>
         (\<forall>w1 anchor_start anchor_end.
            (\<exists>p w2. sample_positive (Some ''subsuming'') max_span_len min_span_len n
                       anchor_start anchor_end w1 = (Inr p, w2)) \<longleftrightarrow>
            span_length w1 (shd (beta_draws w1)) max_span_len min_span_len
              \<le> anchor_end - anchor_start) \<and>
         (\<forall>anchor positives.
            fst (sample_anchor_positives text max_span_len min_span_len num_spans
                   sampling_strategy tokenizer w) = Inr (anchor, positives) \<longrightarrow>
            (\<exists>a ps w'.
               sample_spans n max_span_len min_span_len num_spans sampling_strategy w
                 = (Inr (a, ps), w') \<and>
               anchor = span_text tokens a \<and>
               positives = map (span_text tokens) ps \<and>
               length positives = nat num_spans \<and>
               (\<forall>p \<in> set ps.
                  0 \<le> fst p \<and> fst p \<le> snd p \<and> snd p \<le> n \<and>
                  span_text tokens p = py_join (take (nat (snd p - fst p)) (drop (nat (fst p)) tokens)) \<and>
                  (fst p < snd p \<longleftrightarrow> \<not> (sampling_strategy = Some ''adjacent'' \<and> a = (0, n))) \<and>
                  (span_text tokens p = [] \<longleftrightarrow>
                     fst p = snd p \<or> (snd p = fst p + 1 \<and> tokens ! nat (fst p) = [])) \<and>
                  (tokenizer = None \<longrightarrow> (span_text tokens p = [] \<longleftrightarrow> fst p = snd p))) \<and>
               (\<forall>j \<le> nat num_spans.
                  fst (sample_anchor_positives text max_span_len min_span_len (int j)
                         sampling_strategy tokenizer w) = Inr (anchor, take j positives))))"
proof (intro conjI impI allI)
  assume "sampling_strategy \<noteq> Some ''subsuming'' \<and> sampling_strategy \<noteq> Some ''adjacent''"
  then obtain a ps w' where
    "sample_spans n max_span_len min_span_len num_spans sampling_strategy w = (Inr (a, ps), w')"
    using sample_spans_free_returns[OF ok v, of sampling_strategy num_spans] by blast
  then show "\<exists>r w'. sample_anchor_positives text max_span_len min_span_len num_spans
                       sampling_strategy tokenizer w = (Inr r, w')"
    unfolding n tokens by (blast dest: sample_anchor_positives_eq)
next
  fix w1 anchor_start anchor_end
  show "(\<exists>p w2. sample_positive (Some ''subsuming'') max_span_len min_span_len n
                       anchor_start anchor_end w1 = (Inr p, w2)) \<longleftrightarrow>
            span_length w1 (shd (beta_draws w1)) max_span_len min_span_len
              \<le> anchor_end - anchor_start"
    by (rule subsuming_pass_returns_iff)
next
  fix anchor positives
  assume h: "fst (sample_anchor_positives text max_span_len min_span_len num_spans
                   sampling_strategy tokenizer w) = Inr (anchor, positives)"
  from sample_anchor_positives_returns[OF h] obtain a ps w' where
    r: "sample_spans n max_span_len min_span_len num_spans sampling_strategy w = (Inr (a, ps), w')"
    and t: "anchor = span_text tokens a" "positives = map (span_text tokens) ps"
    unfolding n tokens by blast
  from sample_spans_positives[OF r ok v(2)]
  have len: "length ps = nat num_spans"
    and b: "\<forall>p \<in> set ps. 0 \<le> fst p \<and> fst p \<le> snd p \<and> snd p \<le> n" by auto
  note ne = sample_spans_positives_nonempty[OF r ok v(2)]
  have jn: "span_text tokens p = py_join (take (nat (snd p - fst p)) (drop (nat (fst p)) tokens))"
    if "p \<in> set ps" for p
    using that b py_slice_in_bounds[of "fst p" "snd p" tokens] by (auto simp: span_text_def n)
  have em: "span_text tokens p = [] \<longleftrightarrow>
              fst p = snd p \<or> (snd p = fst p + 1 \<and> tokens ! nat (fst p) = [])"
    if "p \<in> set ps" for p
    using that b by (intro span_text_empty_iff) (auto simp: n)
  have dt: "span_text tokens p = [] \<longleftrightarrow> fst p = snd p"
    if p: "p \<in> set ps" and d: "tokenizer = None" for p
  proof -
    have "tokens ! nat (fst p) \<noteq> []" if "snd p = fst p + 1"
    proof -
      from that p b have "nat (fst p) < length tokens" by (auto simp: n)
      then have "tokens ! nat (fst p) \<in> set (py_split text)"
        using d by (simp add: tokens tokenize_def)
      then show ?thesis by (rule py_split_nonempty)
    qed
    with em[OF p] show ?thesis by auto
  qed
  have pre: "fst (sample_anchor_positives text max_span_len min_span_len (int j)
                    sampling_strategy tokenizer w) = Inr (anchor, take j positives)"
    if "j \<le> nat num_spans" for j
  proof -
    from sample_spans_prefix[OF r that] obtain w'' where
      "sample_spans n max_span_len min_span_len (int j) sampling_strategy w = (Inr (a, take j ps), w'')"
      by blast
    then have "sample_anchor_positives text max_span_len min_span_len (int j) sampling_strategy tokenizer w
                 = (Inr (span_text tokens a, map (span_text tokens) (take j ps)), w'')"
      unfolding n tokens by (rule sample_anchor_positives_eq)
    then show ?thesis by (simp add: t take_map)
  qed
  from r t len b ne jn em dt pre
  show "\<exists>a ps w'.
               sample_spans n max_span_len min_span_len num_spans sampling_strategy w
                 = (Inr (a, ps), w') \<and>
               anchor = span_text tokens a \<and>
               positives = map (span_text tokens) ps \<and>
               length positives = nat num_spans \<and>
               (\<forall>p \<in> set ps.
                  0 \<le> fst p \<and> fst p \<le> snd p \<and> snd p \<le> n \<and>
                  span_text tokens p = py_join (take (nat (snd p - fst p)) (drop (nat (fst p)) tokens)) \<and>
                  (fst p < snd p \<longleftrightarrow> \<not> (sampling_strategy = Some ''adjacent'' \<and> a = (0, n))) \<and>
                  (span_text tokens p = [] \<longleftrightarrow>
                     fst p = snd p \<or> (snd p = fst p + 1 \<and> tokens ! nat (fst p) = [])) \<and>
                  (tokenizer = None \<longrightarrow> (span_text tokens p = [] \<longleftrightarrow> fst p = snd p))) \<and>
               (\<forall>j \<le> nat num_spans.
                  fst (sample_anchor_positives text max_span_len min_span_len (int j)
                         sampling_strategy tokenizer w) = Inr (anchor, take j positives))"
    by (intro exI[of _ a] exI[of _ ps] exI[of _ w']) simp
qed

theorem sample_anchor_positives_result_witness:
  "world_ok world_short_positive \<and>
   int (length (tokenize None doc10)) = 10 \<and>
   fst (sample_anchor_positives doc10 10 1 2 None None world_short_positive)
     = Inr (''c d e f g h i'', [''c d e'', ''c d e'']) \<and>
   (\<exists>r w'. sample_anchor_positives doc10 10 1 2 None None world_short_positive = (Inr r, w')) \<and>
   fst (sample_anchor_positives doc10 10 1 1 None None world_short_positive)
     = Inr (''c d e f g h i'', [''c d e''])"
proof -
  have len: "int (length (tokenize None doc10)) = 10"
    by (simp add: tokenize_def py_split_def py_isspace_def doc10_def)
  have ev: "fst (sample_anchor_positives doc10 10 1 2 None None world_short_positive)
              = Inr (''c d e f g h i'', [''c d e'', ''c d e''])"
    by (simp add: eval_defs world_short_positive_def numeral_2_eq_2)
  have v: "(10::int) \<le> int (length (tokenize None doc10))" "(0::int) < 1"
    "(1::int) \<le> 10" "(10::int) \<le> int (length (tokenize None doc10))" "(1::int) \<le> 2"
    by (simp_all add: len)
  note th = sample_anchor_positives_result[OF world_ok_short refl refl v,
      where sampling_strategy = None]
  from th[THEN conjunct1] have r: "\<exists>r w'. sample_anchor_positives doc10 10 1 2 None None
      world_short_positive = (Inr r, w')"
    by simp
  from th[THEN conjunct2, THEN conjunct2, rule_format, OF ev]
  have "\<forall>j \<le> nat 2.
          fst (sample_anchor_positives doc10 10 1 (int j) None None world_short_positive)
            = Inr (''c d e f g h i'', take j [''c d e'', ''c d e''])"
    by (elim exE conjE)
  from this[rule_format, of 1]
  have p: "fst (sample_anchor_positives doc10 10 1 1 None None world_short_positive)
     = Inr (''c d e f g h i'', [''c d e''])" by simp
  from world_ok_short len ev r p show ?thesis by (intro conjI)
qed

text \<open>
  C1 as stated fails. With a positive longer than the anchor the subsuming strategy hands
  \<open>randint\<close> an empty range and the call raises. When the anchor is the whole document the
  adjacent strategy raises for want of a valid start or, for a Beta variate close to 1,
  returns the empty string as a positive. And with a tokenizer that yields an empty token the
  default strategy returns the empty string as a positive of one token.
\<close>

theorem sample_anchor_positives_counterexample:
  "world_ok world_long_positive \<and>
   fst (sample_anchor_positives doc10 10 1 1 (Some ''subsuming'') None world_long_positive)
     = Inl (ValueError_empty_range 2 0) \<and>
   fst (sample_anchor_positives doc10 10 10 1 (Some ''adjacent'') None world_long_positive)
     = Inl IndexError_empty_seq \<and>
   world_ok world_near_one \<and>
   fst (sample_anchor_positives doc10 10 10 1 (Some ''adjacent'') None world_near_one)
     = Inr (''a b c d e f g h i j'', ['''']) \<and>
   world_ok world_unit \<and>
   tokenize (Some py_split_space) doc_double_space
     = [''a'', '''', ''b'', ''c'', ''d'', ''e'', ''f'', ''g'', ''h'', ''i''] \<and>
   fst (sample_anchor_positives doc_double_space 1 1 1 None (Some py_split_space) world_unit)
     = Inr ('''', [''''])"
proof -
  have a: "fst (sample_anchor_positives doc10 10 1 1 (Some ''subsuming'') None world_long_positive)
         = Inl (ValueError_empty_range 2 0)"
    by (simp add: eval_defs world_long_positive_def)
  have b: "fst (sample_anchor_positives doc10 10 10 1 (Some ''adjacent'') None world_long_positive)
         = Inl IndexError_empty_seq"
    by (simp add: eval_defs world_long_positive_def)
  have c: "fst (sample_anchor_positives doc10 10 10 1 (Some ''adjacent'') None world_near_one)
         = Inr (''a b c d e f g h i j'', [''''])"
    by (simp add: eval_defs world_near_one_def)
  have d: "tokenize (Some py_split_space) doc_double_space
     = [''a'', '''', ''b'', ''c'', ''d'', ''e'', ''f'', ''g'', ''h'', ''i'']"
    by (simp add: tokenize_def py_split_space_def doc_double_space_def)
  have e: "fst (sample_anchor_positives doc_double_space 1 1 1 None (Some py_split_space) world_unit)
     = Inr ('''', [''''])"
    by (simp add: eval_defs py_split_space_def doc_double_space_def world_unit_def)
  from world_ok_long a b world_ok_near_one c world_ok_unit d e show ?thesis by (intro conjI)
qed

text \<open>
  C2. When a call under the subsuming strategy returns, the range of every positive lies within
  the range of the anchor: \<open>anchor_start \<le> positive_start\<close> and \<open>positive_end \<le> anchor_end\<close>.
\<close>

theorem subsuming_positive_within_anchor:
  assumes "fst (sample_anchor_positives text max_span_len min_span_len num_spans (Some ''subsuming'') tokenizer w)
             = Inr (anchor, positives)"
  shows "\<exists>a ps w'. sample_spans (int (length (tokenize tokenizer text))) max_span_len min_span_len
                      num_spans (Some ''subsuming'') w = (Inr (a, ps), w') \<and>
           anchor = span_text (tokenize tokenizer text) a \<and>
           positives = map (span_text (tokenize tokenizer text)) ps \<and>
           (\<forall>p \<in> set ps. fst a \<le> fst p \<and> snd p \<le> snd a)"
proof -
  let ?n = "int (length (tokenize tokenizer text))"
  from sample_anchor_positives_returns[OF assms] obtain a ps w' where
    r: "sample_spans ?n max_span_len min_span_len num_spans (Some ''subsuming'') w = (Inr (a, ps), w')"
    and t: "anchor = span_text (tokenize tokenizer text) a" "positives = map (span_text (tokenize tokenizer text)) ps"
    by blast
  from sample_spans_returns[OF r] obtain w2 where
    l: "positives_loop (nat num_spans) (Some ''subsuming'') max_span_len min_span_len ?n (fst a) (snd a) [] w2 = (Inr ps, w')"
    by blast
  have "\<exists>new. ps = [] @ new \<and> length new = nat num_spans \<and> (\<forall>p \<in> set new. fst a \<le> fst p \<and> snd p \<le> snd a) \<and> True"
    by (rule positives_loop_invariant[where Q = "\<lambda>_. True", OF _ _ l]) (auto dest: sample_positive_subsuming)
  with r t show ?thesis by auto
qed

theorem subsuming_positive_within_anchor_witness:
  "fst (sample_anchor_positives doc10 10 1 1 (Some ''subsuming'') None world_short_positive)
     = Inr (''c d e f g h i'', [''e f g'']) \<and>
   (\<exists>a ps w'. sample_spans (int (length (tokenize None doc10))) 10 1 1 (Some ''subsuming'')
                 world_short_positive = (Inr (a, ps), w') \<and>
      ''c d e f g h i'' = span_text (tokenize None doc10) a \<and>
      [''e f g''] = map (span_text (tokenize None doc10)) ps \<and>
      (\<forall>p \<in> set ps. fst a \<le> fst p \<and> snd p \<le> snd a))"
proof -
  have h: "fst (sample_anchor_positives doc10 10 1 1 (Some ''subsuming'') None world_short_positive)
             = Inr (''c d e f g h i'', [''e f g''])"
    by (simp add: eval_defs world_short_positive_def)
  show ?thesis by (rule conjI[OF h subsuming_positive_within_anchor[OF h]])
qed

text \<open>
  C3, as amended. When a call under the adjacent strategy returns, the range of every positive
  is disjoint from the range of the anchor and \<open>positive_end = anchor_start\<close> or
  \<open>positive_start = anchor_end\<close>. Exactly one of the two holds when \<open>min_span_len > 0\<close> and the
  Beta variates lie in \<open>[0, 1]\<close>.
\<close>

theorem adjacent_positive_touches_anchor:
  assumes "fst (sample_anchor_positives text max_span_len min_span_len num_spans (Some ''adjacent'') tokenizer w)
             = Inr (anchor, positives)"
  shows "\<exists>a ps w'. sample_spans (int (length (tokenize tokenizer text))) max_span_len min_span_len
                      num_spans (Some ''adjacent'') w = (Inr (a, ps), w') \<and>
           anchor = span_text (tokenize tokenizer text) a \<and>
           positives = map (span_text (tokenize tokenizer text)) ps \<and>
           (\<forall>p \<in> set ps. {fst p ..< snd p} \<inter> {fst a ..< snd a} = {} \<and>
                         (snd p = fst a \<or> fst p = snd a) \<and>
                         (world_ok w \<and> 0 < min_span_len \<longrightarrow> \<not> (snd p = fst a \<and> fst p = snd a)))"
proof -
  let ?n = "int (length (tokenize tokenizer text))"
  from sample_anchor_positives_returns[OF assms] obtain a ps w' where
    r: "sample_spans ?n max_span_len min_span_len num_spans (Some ''adjacent'') w = (Inr (a, ps), w')"
    and t: "anchor = span_text (tokenize tokenizer text) a" "positives = map (span_text (tokenize tokenizer text)) ps"
    by blast
  from sample_spans_returns[OF r] obtain w2 where
    l: "positives_loop (nat num_spans) (Some ''adjacent'') max_span_len min_span_len ?n (fst a) (snd a) [] w2 = (Inr ps, w')"
    by blast
  have "\<exists>new. ps = [] @ new \<and> length new = nat num_spans \<and>
          (\<forall>p \<in> set new. (snd p = fst a \<or> fst p = snd a) \<and> {fst p ..< snd p} \<inter> {fst a ..< snd a} = {}) \<and> True"
    by (rule positives_loop_invariant[where Q = "\<lambda>_. True", OF _ _ l]) (auto dest: sample_positive_adjacent)
  then have adj: "\<forall>p \<in> set ps. (snd p = fst a \<or> fst p = snd a) \<and> {fst p ..< snd p} \<inter> {fst a ..< snd a} = {}"
    by auto
  have one: "\<not> (snd p = fst a \<and> fst p = snd a)" if p: "p \<in> set ps" and ok: "world_ok w" and mn: "0 < min_span_len" for p
  proof -
    from sample_spans_anchor[OF r ok mn] have "fst a < snd a" using mn by auto
    moreover from sample_spans_positives[OF r ok mn] p have "fst p \<le> snd p" by auto
    ultimately show ?thesis by auto
  qed
  from r t adj one show ?thesis by blast
qed

theorem adjacent_positive_touches_anchor_witness:
  "fst (sample_anchor_positives doc10 4 2 1 (Some ''adjacent'') None world_short_positive)
     = Inr (''c d e'', [''f g'']) \<and>
   world_ok world_short_positive \<and>
   (\<exists>a ps w'. sample_spans (int (length (tokenize None doc10))) 4 2 1 (Some ''adjacent'')
                 world_short_positive = (Inr (a, ps), w') \<and>
      ''c d e'' = span_text (tokenize None doc10) a \<and>
      [''f g''] = map (span_text (tokenize None doc10)) ps \<and>
      (\<forall>p \<in> set ps. {fst p ..< snd p} \<inter> {fst a ..< snd a} = {} \<and>
                    (snd p = fst a \<or> fst p = snd a) \<and>
                    \<not> (snd p = fst a \<and> fst p = snd a)))"
proof -
  have h: "fst (sample_anchor_positives doc10 4 2 1 (Some ''adjacent'') None world_short_positive)
             = Inr (''c d e'', [''f g''])"
    by (simp add: eval_defs world_short_positive_def)
  from adjacent_positive_touches_anchor[OF h] obtain a ps w' where
    r: "sample_spans (int (length (tokenize None doc10))) 4 2 1 (Some ''adjacent'')
          world_short_positive = (Inr (a, ps), w')"
    and t: "''c d e'' = span_text (tokenize None doc10) a"
           "[''f g''] = map (span_text (tokenize None doc10)) ps"
    and p: "\<forall>p \<in> set ps. {fst p ..< snd p} \<inter> {fst a ..< snd a} = {} \<and>
                    (snd p = fst a \<or> fst p = snd a) \<and>
                    (world_ok world_short_positive \<and> (0::int) < 2 \<longrightarrow> \<not> (snd p = fst a \<and> fst p = snd a))"
    by auto
  from p world_ok_short
  have q: "\<forall>p \<in> set ps. {fst p ..< snd p} \<inter> {fst a ..< snd a} = {} \<and>
                    (snd p = fst a \<or> fst p = snd a) \<and> \<not> (snd p = fst a \<and> fst p = snd a)"
    by simp
  from r t q
  have "sample_spans (int (length (tokenize None doc10))) 4 2 1 (Some ''adjacent'')
          world_short_positive = (Inr (a, ps), w') \<and>
        ''c d e'' = span_text (tokenize None doc10) a \<and>
        [''f g''] = map (span_text (tokenize None doc10)) ps \<and>
        (\<forall>p \<in> set ps. {fst p ..< snd p} \<inter> {fst a ..< snd a} = {} \<and>
                    (snd p = fst a \<or> fst p = snd a) \<and> \<not> (snd p = fst a \<and> fst p = snd a))"
    by (intro conjI)
  then have "\<exists>a ps w'. sample_spans (int (length (tokenize None doc10))) 4 2 1 (Some ''adjacent'')
                 world_short_positive = (Inr (a, ps), w') \<and>
      ''c d e'' = span_text (tokenize None doc10) a \<and>
      [''f g''] = map (span_text (tokenize None doc10)) ps \<and>
      (\<forall>p \<in> set ps. {fst p ..< snd p} \<inter> {fst a ..< snd a} = {} \<and>
                    (snd p = fst a \<or> fst p = snd a) \<and>
                    \<not> (snd p = fst a \<and> fst p = snd a))"
    by (intro exI)
  with h world_ok_short show ?thesis by (intro conjI)
qed

text \<open>
  C3 as stated fails. The code accepts \<open>min_span_len = max_span_len = 0\<close>; then the anchor
  \<open>[5, 5)\<close> and the positive \<open>[5, 5)\<close> are both empty, and \<open>positive_end = anchor_start\<close> and
  \<open>positive_start = anchor_end\<close> hold together.
\<close>

theorem adjacent_touches_both_counterexample:
  "fst (sample_spans 10 0 0 1 (Some ''adjacent'') world_mid_anchor) = Inr ((5, 5), [(5, 5)]) \<and>
   fst (sample_anchor_positives doc10 0 0 1 (Some ''adjacent'') None world_mid_anchor)
     = Inr ('''', [''''])"
  by (simp add: eval_defs world_mid_anchor_def)

text \<open>
  C4 fails on the code. For a document of 10 tokens with \<open>min_span_len = max_span_len = 5\<close> and
  the anchor at \<open>[5, 10)\<close> the redrawn length is 5 = \<open>max_positive_len\<close>, the test
  \<open>anchor_start - positive_length > 0\<close> rejects the start 0, and \<open>valid_starts\<close> is empty. With
  \<open>min_span_len = max_span_len = 10\<close> the anchor is the whole document, \<open>max_positive_len\<close> is 0
  and the redrawn length 5 exceeds it. In both calls \<open>choice\<close> raises \<open>IndexError\<close>.
\<close>

theorem adjacent_no_valid_start:
  "max_positive_len 5 5 10 10 = 5 \<and>
   valid_starts 5 10 10 5 = [] \<and>
   fst (sample_anchor_positives doc10 5 5 1 (Some ''adjacent'') None world_late_anchor)
     = Inl IndexError_empty_seq \<and>
   max_positive_len 10 0 10 10 = 0 \<and>
   valid_starts 0 10 10 5 = [] \<and>
   fst (sample_anchor_positives doc10 10 10 1 (Some ''adjacent'') None world_late_anchor)
     = Inl IndexError_empty_seq"
  by (simp add: eval_defs world_late_anchor_def)

text \<open>
  C5. A call whose document has fewer than 10 tokens, or whose \<open>min_span_len\<close> exceeds
  \<open>max_span_len\<close>, or whose \<open>max_span_len\<close> exceeds the number of tokens, raises the
  \<open>ValueError\<close> of the first check that fails, and the environment is as before the call:
  nothing was sampled. The length check comes first, so 9 tokens raise whatever the other
  arguments are.
\<close>

theorem precondition_violation_raises:
  assumes "n = int (length (tokenize tokenizer text))"
    and "n < 10 \<or> min_span_len > max_span_len \<or> max_span_len > n"
  shows "sample_anchor_positives text max_span_len min_span_len num_spans sampling_strategy tokenizer w =
           (Inl (if n < 10 then ValueError_too_short n
                 else if min_span_len > max_span_len
                   then ValueError_min_exceeds_max max_span_len min_span_len
                 else ValueError_max_exceeds_len n max_span_len), w)"
  using assms unfolding sample_anchor_positives_def sample_spans_def Let_def by auto

theorem precondition_violation_raises_witness:
  "int (length (tokenize None doc9)) = 9 \<and>
   sample_anchor_positives doc9 10 1 1 None None world_short_positive
     = (Inl (ValueError_too_short 9), world_short_positive) \<and>
   int (length (tokenize None doc10)) = 10 \<and>
   sample_anchor_positives doc10 3 5 1 None None world_short_positive
     = (Inl (ValueError_min_exceeds_max 3 5), world_short_positive) \<and>
   sample_anchor_positives doc10 11 1 1 None None world_short_positive
     = (Inl (ValueError_max_exceeds_len 10 11), world_short_positive)"
proof -
  have l9: "int (length (tokenize None doc9)) = 9"
    by (simp add: tokenize_def py_split_def py_isspace_def doc9_def)
  have l10: "int (length (tokenize None doc10)) = 10"
    by (simp add: tokenize_def py_split_def py_isspace_def doc10_def)
  have a: "sample_anchor_positives doc9 10 1 1 None None world_short_positive
     = (Inl (ValueError_too_short 9), world_short_positive)"
    using precondition_violation_raises[where max_span_len = 10 and min_span_len = 1 and num_spans = 1
        and sampling_strategy = None and w = world_short_positive, OF l9[symmetric]] by simp
  have b: "sample_anchor_positives doc10 3 5 1 None None world_short_positive
     = (Inl (ValueError_min_exceeds_max 3 5), world_short_positive)"
    using precondition_violation_raises[where max_span_len = 3 and min_span_len = 5 and num_spans = 1
        and sampling_strategy = None and w = world_short_positive, OF l10[symmetric]] by simp
  have c: "sample_anchor_positives doc10 11 1 1 None None world_short_positive
     = (Inl (ValueError_max_exceeds_len 10 11), world_short_positive)"
    using precondition_violation_raises[where max_span_len = 11 and min_span_len = 1 and num_spans = 1
        and sampling_strategy = None and w = world_short_positive, OF l10[symmetric]] by simp
  from l9 a l10 b c show ?thesis by blast
qed

text \<open>
  C8, as amended. Under the adjacent strategy a pass always consumes two Beta variates, and the
  length of the positive is the one computed from the second variate against
  \<open>max_positive_len\<close>, whatever the first length was. The first length decides only whether the
  warning is logged.
\<close>

theorem adjacent_length_always_redrawn:
  "beta_draws (snd (sample_positive (Some ''adjacent'') max_span_len min_span_len num_tokens
                      anchor_start anchor_end w)) = stl (stl (beta_draws w)) \<and>
   warned (snd (sample_positive (Some ''adjacent'') max_span_len min_span_len num_tokens
                  anchor_start anchor_end w)) =
     (if span_length w (shd (beta_draws w)) max_span_len min_span_len
           > max_positive_len max_span_len anchor_start anchor_end num_tokens
      then warned (warning_once (span_length w (shd (beta_draws w)) max_span_len min_span_len,
                                 max_positive_len max_span_len anchor_start anchor_end num_tokens) w)
      else warned w) \<and>
   (\<forall>p. fst (sample_positive (Some ''adjacent'') max_span_len min_span_len num_tokens
                anchor_start anchor_end w) = Inr p \<longrightarrow>
        snd p - fst p =
          span_length w (shd (stl (beta_draws w)))
            (max_positive_len max_span_len anchor_start anchor_end num_tokens) min_span_len)"
  unfolding sample_positive_def np_random_beta_def choice_def warning_once_def span_length_def Let_def
  by (auto split: prod.splits sum.splits if_splits)

theorem adjacent_length_always_redrawn_witness:
  "fst (sample_positive (Some ''adjacent'') 10 2 20 7 13 world_redraw_positive) = Inr (2, 7) \<and>
   span_length world_redraw_positive (shd (beta_draws world_redraw_positive)) 10 2 = 4 \<and>
   (7 :: int) - 2 =
     span_length world_redraw_positive (shd (stl (beta_draws world_redraw_positive)))
       (max_positive_len 10 7 13 20) 2 \<and>
   warned (snd (sample_positive (Some ''adjacent'') 10 2 20 7 13 world_redraw_positive)) = []"
proof -
  have h: "fst (sample_positive (Some ''adjacent'') 10 2 20 7 13 world_redraw_positive) = Inr (2, 7)"
    by (simp add: eval_defs world_redraw_positive_def)
  have l: "span_length world_redraw_positive (shd (beta_draws world_redraw_positive)) 10 2 = 4"
    by (simp add: eval_defs world_redraw_positive_def)
  have m: "max_positive_len 10 7 13 20 = 7" by (simp add: max_positive_len_def)
  note th = adjacent_length_always_redrawn[of 10 2 20 7 13 world_redraw_positive]
  from th h have a: "snd (2 :: int, 7 :: int) - fst (2 :: int, 7 :: int) =
     span_length world_redraw_positive (shd (stl (beta_draws world_redraw_positive)))
       (max_positive_len 10 7 13 20) 2"
    by blast
  from th l m have b: "warned (snd (sample_positive (Some ''adjacent'') 10 2 20 7 13 world_redraw_positive)) = []"
    by (simp add: world_redraw_positive_def)
  from h l a b show ?thesis by simp
qed

text \<open>
  C8 as stated fails. For a document of 20 tokens with the anchor at \<open>[7, 13)\<close> the first
  length drawn for the positive is 4, which does not exceed \<open>max_positive_len = 7\<close>, and the
  positive returned has 5 tokens.
\<close>

theorem adjacent_redraw_counterexample:
  "span_length world_redraw (shd (stl (beta_draws world_redraw))) 10 2 = 4 \<and>
   max_positive_len 10 7 13 20 = 7 \<and>
   fst (sample_spans 20 10 2 1 (Some ''adjacent'') world_redraw) = Inr ((7, 13), [(2, 7)]) \<and>
   fst (sample_anchor_positives doc20 10 2 1 (Some ''adjacent'') None world_redraw)
     = Inr (''h i j k l m'', [''c d e f g''])"
  by (simp add: eval_defs world_redraw_def)

text \<open>
  C9. For a document of exactly 10 tokens and \<open>min_span_len = max_span_len = 10\<close>, the default
  strategy returns, the anchor is the range \<open>[0, 10)\<close> and its text is the whole document.
\<close>

theorem whole_document_anchor:
  assumes "world_ok w" and "length (tokenize tokenizer text) = 10"
    and "sampling_strategy \<noteq> Some ''subsuming''" "sampling_strategy \<noteq> Some ''adjacent''"
  shows "\<exists>ps w'.
           sample_spans 10 10 10 num_spans sampling_strategy w = (Inr ((0, 10), ps), w') \<and>
           sample_anchor_positives text 10 10 num_spans sampling_strategy tokenizer w =
             (Inr (py_join (tokenize tokenizer text), map (span_text (tokenize tokenizer text)) ps), w')"
proof -
  from sample_spans_free_returns[OF assms(1) _ _ _ _ assms(3,4), of 10 10 10 num_spans]
  obtain a ps w' where r: "sample_spans 10 10 10 num_spans sampling_strategy w = (Inr (a, ps), w')" by auto
  from sample_spans_anchor[OF r assms(1)] have "fst a = 0" "snd a = 10" by auto
  then have a: "a = (0, 10)" by (cases a) simp
  from r assms(2) have "sample_anchor_positives text 10 10 num_spans sampling_strategy tokenizer w =
             (Inr (span_text (tokenize tokenizer text) a, map (span_text (tokenize tokenizer text)) ps), w')"
    by (intro sample_anchor_positives_eq) simp
  moreover have "span_text (tokenize tokenizer text) a = py_join (tokenize tokenizer text)"
    using py_slice_whole[of "tokenize tokenizer text"] assms(2) by (simp add: a span_text_def)
  ultimately show ?thesis using r a by auto
qed

theorem whole_document_anchor_witness:
  "world_ok world_short_positive \<and> length (tokenize None doc10) = 10 \<and>
   (\<exists>ps w'.
      sample_spans 10 10 10 2 None world_short_positive = (Inr ((0, 10), ps), w') \<and>
      sample_anchor_positives doc10 10 10 2 None None world_short_positive =
        (Inr (py_join (tokenize None doc10), map (span_text (tokenize None doc10)) ps), w'))"
proof -
  have len: "length (tokenize None doc10) = 10"
    by (simp add: tokenize_def py_split_def py_isspace_def doc10_def)
  have st: "(None :: string option) \<noteq> Some ''subsuming''" "(None :: string option) \<noteq> Some ''adjacent''"
    by simp_all
  from world_ok_short len whole_document_anchor[OF world_ok_short len st, of 2]
  show ?thesis by (intro conjI)
qed

text \<open>
  C10. Under the checked preconditions with \<open>min_span_len > 0\<close>, for every anchor the code can
  sample and every positive length in \<open>[min_span_len, max_span_len]\<close>, the lower bound of the
  default strategy's \<open>randint\<close> does not exceed the upper bound; the call returns, and every
  positive range \<open>[start, end)\<close> has \<open>0 \<le> start < end \<le> num_tokens\<close>.
\<close>

theorem free_strategy_never_fails:
  assumes "world_ok w" and "n = int (length (tokenize tokenizer text))"
    and "10 \<le> n" "0 < min_span_len" "min_span_len \<le> max_span_len" "max_span_len \<le> n"
    and "sampling_strategy \<noteq> Some ''subsuming''" "sampling_strategy \<noteq> Some ''adjacent''"
  shows "(\<forall>anchor_length anchor_start positive_length.
            min_span_len \<le> anchor_length \<and> anchor_length \<le> max_span_len \<and>
            0 \<le> anchor_start \<and> anchor_start \<le> n - anchor_length \<and>
            min_span_len \<le> positive_length \<and> positive_length \<le> max_span_len \<longrightarrow>
            fst (free_bounds anchor_start (anchor_start + anchor_length) n positive_length)
              \<le> snd (free_bounds anchor_start (anchor_start + anchor_length) n positive_length)) \<and>
         (\<exists>a ps w'.
            sample_spans n max_span_len min_span_len num_spans sampling_strategy w = (Inr (a, ps), w') \<and>
            sample_anchor_positives text max_span_len min_span_len num_spans sampling_strategy tokenizer w
              = (Inr (span_text (tokenize tokenizer text) a, map (span_text (tokenize tokenizer text)) ps), w') \<and>
            (\<forall>p \<in> set ps. 0 \<le> fst p \<and> fst p < snd p \<and> snd p \<le> n))"
proof (rule conjI)
  show "\<forall>anchor_length anchor_start positive_length.
            min_span_len \<le> anchor_length \<and> anchor_length \<le> max_span_len \<and>
            0 \<le> anchor_start \<and> anchor_start \<le> n - anchor_length \<and>
            min_span_len \<le> positive_length \<and> positive_length \<le> max_span_len \<longrightarrow>
            fst (free_bounds anchor_start (anchor_start + anchor_length) n positive_length)
              \<le> snd (free_bounds anchor_start (anchor_start + anchor_length) n positive_length)"
    using assms(4-6) by (auto intro!: free_bounds_nonempty)
next
  from sample_spans_free_returns[OF assms(1,3-8)] obtain a ps w' where
    r: "sample_spans n max_span_len min_span_len num_spans sampling_strategy w = (Inr (a, ps), w')" by blast
  from sample_spans_positives[OF r assms(1,4)] assms(8)
  have b: "\<forall>p \<in> set ps. 0 \<le> fst p \<and> fst p < snd p \<and> snd p \<le> n" by auto
  from r have "sample_anchor_positives text max_span_len min_span_len num_spans sampling_strategy tokenizer w
              = (Inr (span_text (tokenize tokenizer text) a, map (span_text (tokenize tokenizer text)) ps), w')"
    unfolding assms(2) by (rule sample_anchor_positives_eq)
  with r b show "\<exists>a ps w'.
            sample_spans n max_span_len min_span_len num_spans sampling_strategy w = (Inr (a, ps), w') \<and>
            sample_anchor_positives text max_span_len min_span_len num_spans sampling_strategy tokenizer w
              = (Inr (span_text (tokenize tokenizer text) a, map (span_text (tokenize tokenizer text)) ps), w') \<and>
            (\<forall>p \<in> set ps. 0 \<le> fst p \<and> fst p < snd p \<and> snd p \<le> n)" by blast
qed

theorem free_strategy_never_fails_witness:
  "world_ok world_short_positive \<and> int (length (tokenize None doc10)) = 10 \<and>
   fst (free_bounds 2 (2 + 7) 10 3) \<le> snd (free_bounds 2 (2 + 7) 10 3) \<and>
   (\<exists>a ps w'.
      sample_spans 10 10 1 2 None world_short_positive = (Inr (a, ps), w') \<and>
      sample_anchor_positives doc10 10 1 2 None None world_short_positive
        = (Inr (span_text (tokenize None doc10) a, map (span_text (tokenize None doc10)) ps), w') \<and>
      (\<forall>p \<in> set ps. 0 \<le> fst p \<and> fst p < snd p \<and> snd p \<le> 10))"
proof -
  have len: "int (length (tokenize None doc10)) = 10"
    by (simp add: tokenize_def py_split_def py_isspace_def doc10_def)
  have st: "(None :: string option) \<noteq> Some ''subsuming''" "(None :: string option) \<noteq> Some ''adjacent''"
    by simp_all
  have v: "(10::int) \<le> 10" "(0::int) < 1" "(1::int) \<le> 10" by simp_all
  note th = free_strategy_never_fails[OF world_ok_short len[symmetric] v(1) v(2) v(3) v(1) st, of 2]
  from th have "(1::int) \<le> 7 \<and> (7::int) \<le> 10 \<and> (0::int) \<le> 2 \<and> (2::int) \<le> 10 - 7 \<and> (1::int) \<le> 3 \<and> (3::int) \<le> 10 \<longrightarrow>
      fst (free_bounds 2 (2 + 7) 10 3) \<le> snd (free_bounds 2 (2 + 7) 10 3)"
    by blast
  then have a: "fst (free_bounds 2 (2 + 7) 10 3) \<le> snd (free_bounds 2 (2 + 7) 10 3)" by simp
  from th have b: "\<exists>a ps w'.
      sample_spans 10 10 1 2 None world_short_positive = (Inr (a, ps), w') \<and>
      sample_anchor_positives doc10 10 1 2 None None world_short_positive
        = (Inr (span_text (tokenize None doc10) a, map (span_text (tokenize None doc10)) ps), w') \<and>
      (\<forall>p \<in> set ps. 0 \<le> fst p \<and> fst p < snd p \<and> snd p \<le> 10)"
    by (rule conjunct2)
  from world_ok_short len a b show ?thesis by (intro conjI)
qed

section \<open>Properties of the encoder\<close>

lemma forward_internal_keys:
  "\<exists>d. snd (forward_internal lib self tokens (Some Map.empty)) = Some d \<and>
       dom d = (if training self then {} else {''embeddings''} \<union> (if Option.is_none (self_feedforward self) then {} else {''projections''}))"
  unfolding forward_internal_def store_unless_training_def Let_def
  by (auto split: prod.splits option.splits)

lemma dict_iadd_dom: "dict_iadd d key v = Inr d' \<Longrightarrow> dom d' = dom d"
  by (auto simp: dict_iadd_def split: option.splits if_splits)

lemma compute_loss_dom:
  assumes "compute_loss lib self pos e m d0 = Inr d"
  shows "dom d = insert ''loss'' (dom d0)"
proof -
  from assms obtain d2 where
    s1: "(case self_loss self of
            Some loss \<Rightarrow> dict_iadd (d0(''loss'' \<mapsto> 0)) ''loss'' (contrastive_loss lib self loss e pos)
          | None \<Rightarrow> Inr (d0(''loss'' \<mapsto> 0))) = Inr d2"
    and s2: "(case m of Some l \<Rightarrow> dict_iadd d2 ''loss'' l | None \<Rightarrow> Inr d2) = Inr d"
    unfolding compute_loss_def Let_def by (auto split: sum.splits)
  from s1 have "dom d2 = dom (d0(''loss'' \<mapsto> (0::'a)))"
    by (cases "self_loss self") (simp_all add: dict_iadd_dom)
  moreover from s2 have "dom d = dom d2"
    by (cases m) (simp_all add: dict_iadd_dom)
  ultimately show ?thesis by simp
qed

lemma forward_training_keys:
  assumes t: "training self" and r: "forward lib self anchors positives = Inr d"
  shows "dom d \<subseteq> {''loss''}"
proof -
  from r obtain anchors' where ma: "mask_anchors lib self anchors = Inr anchors'"
    unfolding forward_def by (auto split: sum.splits)
  obtain m e written where
    f: "forward_internal lib self anchors' (Some Map.empty) = ((m, e), written)"
    by (metis surj_pair)
  from forward_internal_keys[of lib self anchors'] f t obtain d0 where
    w: "written = Some d0" and d0: "dom d0 = {}" by auto
  show ?thesis
  proof (cases positives)
    case None
    with r have "d = d0" by (simp add: forward_def ma f w Let_def)
    with d0 show ?thesis by simp
  next
    case (Some pos)
    show ?thesis
    proof (cases "training self \<and> pos \<noteq> []")
      case True
      with r Some have "compute_loss lib self pos e m d0 = Inr d"
        by (simp add: forward_def ma f w Let_def)
      from compute_loss_dom[OF this] d0 show ?thesis by simp
    next
      case False
      with r Some have "d = d0" by (auto simp add: forward_def ma f w Let_def)
      with d0 show ?thesis by simp
    qed
  qed
qed

lemmas encoder_defs =
  forward_def mask_anchors_def forward_internal_def store_unless_training_def compute_loss_def
  contrastive_loss_def dict_iadd_def encoder0_def lib0_def embedder0_def loss0_def batch0_def

text \<open>
  C6. With a token embedder registered under \<open>"tokens"\<close>: construction raises the
  \<open>ValueError\<close> of line 82 when no loss is given and masked language modeling is off, and
  returns the module when a loss is given or masked language modeling is on. An error at
  construction leaves no module to call \<open>forward\<close> on.
\<close>

theorem init_requires_objective:
  assumes "token_embedders text_field_embedder ''tokens'' = Some token_embedder"
  shows "(Option.is_none loss \<and> \<not> embedder_masked_language_modeling token_embedder \<longrightarrow>
            init text_field_embedder seq2vec_encoder feedforward miner loss = Inl ValueError_no_loss) \<and>
         (\<not> Option.is_none loss \<or> embedder_masked_language_modeling token_embedder \<longrightarrow>
            (\<exists>model. init text_field_embedder seq2vec_encoder feedforward miner loss = Inr model \<and>
                     self_loss model = loss \<and>
                     self_masked_language_modeling model = embedder_masked_language_modeling token_embedder))"
  using assms by (auto simp: init_def Let_def)

theorem init_requires_objective_witness:
  "token_embedders embedder0 ''tokens'' = Some \<lparr>embedder_masked_language_modeling = False, embedder_tokenizer = ()\<rparr> \<and>
   init embedder0 (\<lambda>e m. e + m) None (None :: (int \<Rightarrow> unit \<Rightarrow> unit) option) None = Inl ValueError_no_loss \<and>
   (\<exists>model. init embedder0 (\<lambda>e m. e + m) None (None :: (int \<Rightarrow> unit \<Rightarrow> unit) option) (Some loss0) = Inr model \<and>
            self_loss model = Some loss0 \<and>
            self_masked_language_modeling model = False)"
proof -
  have t: "token_embedders embedder0 ''tokens'' = Some \<lparr>embedder_masked_language_modeling = False, embedder_tokenizer = ()\<rparr>"
    by (simp add: embedder0_def)
  have a: "init embedder0 (\<lambda>e m. e + m) None (None :: (int \<Rightarrow> unit \<Rightarrow> unit) option) None = Inl ValueError_no_loss"
    using init_requires_objective[OF t, of None "\<lambda>e m. e + m" None None] by simp
  have b: "\<exists>model. init embedder0 (\<lambda>e m. e + m) None (None :: (int \<Rightarrow> unit \<Rightarrow> unit) option) (Some loss0) = Inr model \<and>
            self_loss model = Some loss0 \<and>
            self_masked_language_modeling model = False"
    using init_requires_objective[OF t, of "Some loss0" "\<lambda>e m. e + m" None None] by simp
  from t a b show ?thesis by (intro conjI)
qed

text \<open>
  C7. Outside training mode \<open>forward\<close> returns a dictionary without \<open>"loss"\<close>, with
  \<open>"embeddings"\<close>, and with \<open>"projections"\<close> exactly when a feedforward layer is configured. In
  training mode a returned dictionary has neither \<open>"embeddings"\<close> nor \<open>"projections"\<close>.
\<close>

theorem forward_output_keys:
  "(\<not> training self \<longrightarrow>
      (\<exists>d. forward lib self anchors positives = Inr d \<and>
           ''loss'' \<notin> dom d \<and> ''embeddings'' \<in> dom d \<and>
           (''projections'' \<in> dom d \<longleftrightarrow> \<not> Option.is_none (self_feedforward self)))) \<and>
   (training self \<longrightarrow>
      (\<forall>d. forward lib self anchors positives = Inr d \<longrightarrow>
           ''embeddings'' \<notin> dom d \<and> ''projections'' \<notin> dom d))"
proof (rule conjI)
  show "\<not> training self \<longrightarrow>
      (\<exists>d. forward lib self anchors positives = Inr d \<and>
           ''loss'' \<notin> dom d \<and> ''embeddings'' \<in> dom d \<and>
           (''projections'' \<in> dom d \<longleftrightarrow> \<not> Option.is_none (self_feedforward self)))"
  proof
    assume nt: "\<not> training self"
    from forward_internal_keys[of lib self anchors] obtain d where
      d: "snd (forward_internal lib self anchors (Some Map.empty)) = Some d"
      and k: "dom d = (if training self then {}
                       else {''embeddings''} \<union>
                            (if Option.is_none (self_feedforward self) then {} else {''projections''}))"
      by blast
    from nt d have "forward lib self anchors positives = Inr d"
      unfolding forward_def mask_anchors_def Let_def by (auto split: prod.splits option.splits)
    moreover from nt k have "''loss'' \<notin> dom d" "''embeddings'' \<in> dom d"
      "''projections'' \<in> dom d \<longleftrightarrow> \<not> Option.is_none (self_feedforward self)"
      by (auto split: if_splits)
    ultimately show "\<exists>d. forward lib self anchors positives = Inr d \<and>
           ''loss'' \<notin> dom d \<and> ''embeddings'' \<in> dom d \<and>
           (''projections'' \<in> dom d \<longleftrightarrow> \<not> Option.is_none (self_feedforward self))" by blast
  qed
next
  show "training self \<longrightarrow>
      (\<forall>d. forward lib self anchors positives = Inr d \<longrightarrow>
           ''embeddings'' \<notin> dom d \<and> ''projections'' \<notin> dom d)"
    using forward_training_keys[of self lib anchors positives] by auto
qed

theorem forward_output_keys_witness:
  "(\<exists>d. forward lib0 (encoder0 False) batch0 (Some batch0) = Inr d \<and>
        ''loss'' \<notin> dom d \<and> ''embeddings'' \<in> dom d \<and> ''projections'' \<in> dom d) \<and>
   forward lib0 (encoder0 True) batch0 (Some batch0) = Inr [''loss'' \<mapsto> 6] \<and>
   ''embeddings'' \<notin> dom [''loss'' \<mapsto> 6 :: int] \<and> ''projections'' \<notin> dom [''loss'' \<mapsto> 6 :: int]"
proof -
  have nt: "\<not> training (encoder0 False)" and t: "training (encoder0 True)"
    by (simp_all add: encoder0_def)
  have ff: "\<not> Option.is_none (self_feedforward (encoder0 False))" by (simp add: encoder0_def)
  note th1 = forward_output_keys[of "encoder0 False" lib0 batch0 "Some batch0"]
  from th1 nt ff have a: "\<exists>d. forward lib0 (encoder0 False) batch0 (Some batch0) = Inr d \<and>
        ''loss'' \<notin> dom d \<and> ''embeddings'' \<in> dom d \<and> ''projections'' \<in> dom d"
    by simp
  have ev: "forward lib0 (encoder0 True) batch0 (Some batch0) = Inr [''loss'' \<mapsto> 6]"
    by (simp add: encoder_defs)
  note th2 = forward_output_keys[of "encoder0 True" lib0 batch0 "Some batch0"]
  from th2 t ev have b: "''embeddings'' \<notin> dom [''loss'' \<mapsto> 6 :: int] \<and> ''projections'' \<notin> dom [''loss'' \<mapsto> 6 :: int]"
    by blast
  from a ev b[THEN conjunct1] b[THEN conjunct2] show ?thesis by (intro conjI)
qed

end
